(* ===== verification/Prelude.thy ===== *)
theory Prelude
  imports Complex_Main "HOL-Library.AList" "HOL-Library.Sublist"
begin

text \<open>
  What every component of the development shares: the exceptions of the Python programs as a
  datatype and results as a sum, insertion-ordered dictionaries as association lists, and the
  text operations the programs call (\<open>split\<close>, \<open>partition\<close>, \<open>strip\<close>, \<open>index\<close>,
  \<open>encode("ascii")\<close>, \<open>str\<close> and \<open>int\<close> on integers).

  A Python \<open>bytes\<close> object is a list of \<open>char\<close>, which in HOL is exactly an 8-bit byte. A
  Python \<open>str\<close> is a list of \<open>char\<close> too: a character below 128 is that ASCII character, and
  one at or above 128 stands for a non-ASCII code point, about which the programs know only that
  it does not encode to ASCII. The character 255 stands for U+FFFD, the replacement character of
  \<open>decode("ascii", errors="replace")\<close>.
\<close>

section \<open>Exceptions and results\<close>

text \<open>
  \<open>NonFinite\<close> is not an exception of the programs: it marks the inputs on which a float of
  the program is an infinity or a NaN, which the model does not follow (a finite float is the
  rational number it denotes).
\<close>

datatype py_exc =
    ValueError
  | KeyError
  | IndexError
  | TypeError
  | ZeroDivisionError
  | RuntimeError string
  | AssertionError
  | ConnectionError
  | TimeoutError
  | OSError
  | UnicodeEncodeError
  | UnicodeDecodeError
  | NonFinite
  | SystemExit

type_synonym 'a res = "py_exc + 'a"

type_synonym bytes = string

definition res_bind :: "'e + 'a \<Rightarrow> ('a \<Rightarrow> 'e + 'b) \<Rightarrow> 'e + 'b" where
  "res_bind m f = (case m of Inl e \<Rightarrow> Inl e | Inr x \<Rightarrow> f x)"

lemma res_bind_simps [simp]:
  "res_bind (Inl e) f = Inl e"
  "res_bind (Inr x) f = f x"
  by (simp_all add: res_bind_def)

lemma res_bind_Inr: "res_bind m f = Inr y \<longleftrightarrow> (\<exists>x. m = Inr x \<and> f x = Inr y)"
  by (cases m) auto

lemma res_bind_cong [fundef_cong]:
  "m = m' \<Longrightarrow> (\<And>x. m' = Inr x \<Longrightarrow> f x = f' x) \<Longrightarrow> res_bind m f = res_bind m' f'"
  by (cases m') auto

definition raises :: "'a res \<Rightarrow> bool" where
  "raises r \<longleftrightarrow> (\<exists>e. r = Inl e)"

section \<open>Dictionaries\<close>

text \<open>
  A Python dictionary keeps its keys in insertion order and overwrites in place, which is what
  \<open>AList.update\<close> does: it replaces the value of a present key where it stands and appends a new
  key at the end.
\<close>

type_synonym ('k, 'v) dict = "('k \<times> 'v) list"

definition dict_get :: "('k, 'v) dict \<Rightarrow> 'k \<Rightarrow> 'v \<Rightarrow> 'v" where
  "dict_get d k dflt = (case map_of d k of None \<Rightarrow> dflt | Some v \<Rightarrow> v)"

definition dict_index :: "('k, 'v) dict \<Rightarrow> 'k \<Rightarrow> 'v res" where
  "dict_index d k = (case map_of d k of None \<Rightarrow> Inl KeyError | Some v \<Rightarrow> Inr v)"

definition dict_of :: "('k \<times> 'v) list \<Rightarrow> ('k, 'v) dict" where
  "dict_of ps = fold (\<lambda>(k, v). AList.update k v) ps []"

definition dict_ok :: "('k, 'v) dict \<Rightarrow> bool" where
  "dict_ok d \<longleftrightarrow> distinct (map fst d)"

named_theorems dict_simps

lemma map_of_update [simp, dict_simps]:
  "map_of (AList.update k v d) = (map_of d)(k \<mapsto> v)"
  by (rule AList.update_conv')

lemma map_of_delete [simp, dict_simps]:
  "map_of (AList.delete k d) = (map_of d)(k := None)"
  by (rule AList.delete_conv')

lemma dict_ok_Nil [simp]: "dict_ok []"
  by (simp add: dict_ok_def)

lemma dict_ok_update [simp, intro]: "dict_ok d \<Longrightarrow> dict_ok (AList.update k v d)"
  by (simp add: dict_ok_def AList.distinct_update)

lemma dict_ok_delete [simp, intro]: "dict_ok d \<Longrightarrow> dict_ok (AList.delete k d)"
  by (simp add: dict_ok_def AList.delete_keys distinct_removeAll)

lemma dict_ok_fold [simp, intro]:
  "dict_ok d \<Longrightarrow> dict_ok (fold (\<lambda>(k, v). AList.update k v) ps d)"
  by (induction ps arbitrary: d) (auto simp: case_prod_beta)

lemma dict_ok_dict_of [simp]: "dict_ok (dict_of ps)"
  by (simp add: dict_of_def)

lemma map_of_fold_update:
  "map_of (fold (\<lambda>(k, v). AList.update k v) ps d) = map_of d ++ map_of (rev ps)"
proof (induction ps arbitrary: d)
  case Nil
  then show ?case by simp
next
  case (Cons p ps)
  then show ?case by (cases p) (simp add: map_add_upd_left [symmetric] map_add_def fun_eq_iff
        split: option.split)
qed

text \<open>The last occurrence of a key wins, as with repeated assignment.\<close>

lemma map_of_dict_of [dict_simps]: "map_of (dict_of ps) = map_of (rev ps)"
  by (simp add: dict_of_def map_of_fold_update)

lemma map_of_rev_distinct: "distinct (map fst ps) \<Longrightarrow> map_of (rev ps) = map_of ps"
proof (rule ext)
  fix k
  assume d: "distinct (map fst ps)"
  have "map_of (rev ps) k = Some v \<longleftrightarrow> map_of ps k = Some v" for v
    using d by (simp add: rev_map [symmetric])
  then show "map_of (rev ps) k = map_of ps k"
    by (metis not_None_eq)
qed

lemma dict_of_distinct: "distinct (map fst ps) \<Longrightarrow> map_of (dict_of ps) = map_of ps"
  by (simp add: map_of_dict_of map_of_rev_distinct)

lemma update_new_key: "k \<notin> fst ` set d \<Longrightarrow> AList.update k v d = d @ [(k, v)]"
  by (induction d) auto

lemma fold_update_new_keys:
  "distinct (map fst ps) \<Longrightarrow> set (map fst ps) \<inter> set (map fst d) = {} \<Longrightarrow>
   fold (\<lambda>(k, v). AList.update k v) ps d = d @ ps"
proof (induction ps arbitrary: d)
  case Nil
  then show ?case by simp
next
  case (Cons p ps)
  obtain k v where p: "p = (k, v)" by (cases p)
  have "AList.update k v d = d @ [(k, v)]"
    using Cons.prems p by (intro update_new_key) auto
  then show ?case using Cons p by auto
qed

lemma dict_of_distinct_eq: "distinct (map fst ps) \<Longrightarrow> dict_of ps = ps"
  by (simp add: dict_of_def fold_update_new_keys)

subsection \<open>Sums over a dictionary\<close>

definition dict_sum :: "('v \<Rightarrow> 'n :: ab_group_add) \<Rightarrow> ('k, 'v) dict \<Rightarrow> 'n" where
  "dict_sum f d = (\<Sum>(k, v) \<leftarrow> d. f v)"

definition opt_val :: "('v \<Rightarrow> 'n :: zero) \<Rightarrow> 'v option \<Rightarrow> 'n" where
  "opt_val f x = (case x of None \<Rightarrow> 0 | Some v \<Rightarrow> f v)"

lemma opt_val_simps [simp]: "opt_val f None = 0" "opt_val f (Some v) = f v"
  by (simp_all add: opt_val_def)

lemma dict_sum_simps [simp]:
  "dict_sum f [] = 0" "dict_sum f ((k, v) # d) = f v + dict_sum f d"
  by (simp_all add: dict_sum_def)

lemma dict_ok_Cons [simp]: "dict_ok ((k, v) # d) \<longleftrightarrow> k \<notin> fst ` set d \<and> dict_ok d"
  by (auto simp: dict_ok_def)

lemma dict_sum_delete:
  "dict_ok d \<Longrightarrow> dict_sum f (AList.delete k d) = dict_sum f d - opt_val f (map_of d k)"
proof (induction d)
  case (Cons p d)
  then show ?case
    by (cases p) (auto simp: AList.delete_id map_of_eq_None_iff [THEN iffD2])
qed simp

lemma dict_sum_update:
  "dict_ok d \<Longrightarrow> dict_sum f (AList.update k v d) = dict_sum f d - opt_val f (map_of d k) + f v"
proof (induction d)
  case (Cons p d)
  then show ?case by (cases p) auto
qed simp

lemma dict_sum_nonneg:
  "(\<And>k v. (k, v) \<in> set d \<Longrightarrow> 0 \<le> f v) \<Longrightarrow> 0 \<le> dict_sum (f :: 'v \<Rightarrow> int) d"
proof (induction d)
  case (Cons p d)
  obtain k v where "p = (k, v)" by (cases p)
  then have "0 \<le> f v" "0 \<le> dict_sum f d" using Cons by auto
  then show ?case using \<open>p = (k, v)\<close> by simp
qed simp

text \<open>A sum over the dictionary is the sum over the map it stands for.\<close>

lemma dict_sum_dom:
  assumes "dict_ok d"
  shows "dict_sum f d = (\<Sum>k \<in> dom (map_of d). f (the (map_of d k)))"
  using assms
proof (induction d)
  case (Cons p d)
  obtain k v where p: "p = (k, v)" by (cases p)
  have k: "k \<notin> dom (map_of d)" using Cons.prems p by (simp add: dom_map_of_conv_image_fst)
  have "(\<Sum>j \<in> dom (map_of (p # d)). f (the (map_of (p # d) j)))
      = f v + (\<Sum>j \<in> dom (map_of d). f (the (map_of (p # d) j)))"
    using k by (simp add: p finite_dom_map_of)
  also have "(\<Sum>j \<in> dom (map_of d). f (the (map_of (p # d) j)))
      = (\<Sum>j \<in> dom (map_of d). f (the (map_of d j)))"
    using k p by (intro sum.cong) auto
  finally show ?case using Cons p by simp
qed simp

lemma set_delete_subset: "set (AList.delete k d) \<subseteq> set d"
  by (auto simp: AList.delete_eq)

lemma set_update_subset: "set (AList.update k v d) \<subseteq> insert (k, v) (set d)"
  by (induction d) auto

section \<open>Functional refinement\<close>

text \<open>
  An implementation step simulates a specification step under an abstraction function, on states
  that satisfy an invariant and events the specification allows; then so does every run.
\<close>

fun run_ok :: "('e \<Rightarrow> 'a \<Rightarrow> bool) \<Rightarrow> ('e \<Rightarrow> 'a \<Rightarrow> 'a) \<Rightarrow> 'e list \<Rightarrow> 'a \<Rightarrow> bool" where
  "run_ok ok spec [] a = True"
| "run_ok ok spec (e # es) a = (ok e a \<and> run_ok ok spec es (spec e a))"

locale functional_refinement =
  fixes step :: "'e \<Rightarrow> 's \<Rightarrow> 's" and spec :: "'e \<Rightarrow> 'a \<Rightarrow> 'a"
    and abs :: "'s \<Rightarrow> 'a" and inv :: "'s \<Rightarrow> bool" and ok :: "'e \<Rightarrow> 'a \<Rightarrow> bool"
  assumes step_inv: "inv s \<Longrightarrow> ok e (abs s) \<Longrightarrow> inv (step e s)"
    and step_abs: "inv s \<Longrightarrow> ok e (abs s) \<Longrightarrow> abs (step e s) = spec e (abs s)"
begin

lemma run_refines:
  "inv s \<Longrightarrow> run_ok ok spec es (abs s) \<Longrightarrow>
   inv (fold step es s) \<and> abs (fold step es s) = fold spec es (abs s)"
  by (induction es arbitrary: s) (auto simp: step_inv step_abs)

end

end
