(* ===== verification/PyText.thy ===== *)
theory PyText
  imports Prelude
begin

text \<open>
  The text operations of the Python programs: ASCII encoding, \<open>split\<close>, \<open>partition\<close>,
  \<open>strip\<close>, substring search, and the conversions between integers and decimal text. Each is the
  behaviour of the Python built-in on the strings of \<open>Prelude\<close>, and each comes with the laws the
  codecs rest on.
\<close>

section \<open>ASCII\<close>

abbreviation SEP :: char where
  "SEP \<equiv> CHR 0x01"

definition is_ascii :: "char \<Rightarrow> bool" where
  "is_ascii c \<longleftrightarrow> of_char c < (128 :: nat)"

definition encode_ascii :: "string \<Rightarrow> bytes res" where
  "encode_ascii s = (if list_all is_ascii s then Inr s else Inl UnicodeEncodeError)"

definition decode_ascii :: "bytes \<Rightarrow> string res" where
  "decode_ascii b = (if list_all is_ascii b then Inr b else Inl UnicodeDecodeError)"

definition decode_ascii_replace :: "bytes \<Rightarrow> string" where
  "decode_ascii_replace b = map (\<lambda>c. if is_ascii c then c else CHR 0xFF) b"

lemma encode_ascii_ok [simp]: "list_all is_ascii s \<Longrightarrow> encode_ascii s = Inr s"
  by (simp add: encode_ascii_def)

lemma encode_ascii_Inr: "encode_ascii s = Inr b \<longleftrightarrow> list_all is_ascii s \<and> b = s"
  by (auto simp: encode_ascii_def)

lemma decode_ascii_replace_id [simp]: "list_all is_ascii b \<Longrightarrow> decode_ascii_replace b = b"
  by (auto simp: decode_ascii_replace_def list_all_iff intro: map_idI)

lemma decode_ascii_replace_append [simp]:
  "decode_ascii_replace (a @ b) = decode_ascii_replace a @ decode_ascii_replace b"
  by (simp add: decode_ascii_replace_def)

section \<open>Splitting and searching\<close>

text \<open>\<open>s.split(sep)\<close> with a one-character separator: never the empty list.\<close>

fun split_on :: "'a \<Rightarrow> 'a list \<Rightarrow> 'a list list" where
  "split_on c [] = [[]]"
| "split_on c (x # xs) =
     (if x = c then [] # split_on c xs
      else (case split_on c xs of [] \<Rightarrow> [[x]] | w # ws \<Rightarrow> (x # w) # ws))"

text \<open>\<open>s.partition(sep)\<close>: the text before the first separator, the separator, the text after.\<close>

definition partition_on :: "'a \<Rightarrow> 'a list \<Rightarrow> 'a list \<times> 'a list \<times> 'a list" where
  "partition_on c s =
     (if c \<in> set s
      then (takeWhile (\<lambda>x. x \<noteq> c) s, [c], tl (dropWhile (\<lambda>x. x \<noteq> c) s))
      else (s, [], []))"

text \<open>\<open>s.find(p)\<close>: the offset of the first occurrence, \<open>None\<close> for Python's -1.\<close>

fun find_sub :: "'a list \<Rightarrow> 'a list \<Rightarrow> nat option" where
  "find_sub p [] = (if p = [] then Some 0 else None)"
| "find_sub p (x # xs) = (if prefix p (x # xs) then Some 0 else map_option Suc (find_sub p xs))"

text \<open>\<open>s.index(c, start)\<close> for a single character.\<close>

definition index_from :: "'a \<Rightarrow> 'a list \<Rightarrow> nat \<Rightarrow> nat option" where
  "index_from c s start = map_option ((+) start) (find_sub [c] (drop start s))"

text \<open>\<open>sep.join(xs)\<close>\<close>

fun join :: "string \<Rightarrow> string list \<Rightarrow> string" where
  "join sep [] = []"
| "join sep [s] = s"
| "join sep (s # t # ts) = s @ sep @ join sep (t # ts)"

definition startswith :: "string \<Rightarrow> string \<Rightarrow> bool" where
  "startswith s p = prefix p s"

lemma split_on_not_Nil [simp]: "split_on c xs \<noteq> []"
  by (induction xs) (auto split: list.splits)

lemma split_on_notin: "c \<notin> set xs \<Longrightarrow> split_on c xs = [xs]"
  by (induction xs) auto

lemma split_on_append_sep: "split_on c (xs @ c # ys) = split_on c xs @ split_on c ys"
  by (induction xs) (auto split: list.splits)

lemma split_on_terminated:
  "(\<And>w. w \<in> set ws \<Longrightarrow> c \<notin> set w) \<Longrightarrow>
   split_on c (concat (map (\<lambda>w. w @ [c]) ws)) = ws @ [[]]"
  by (induction ws) (auto simp: split_on_append_sep split_on_notin)

lemma split_on_pieces: "w \<in> set (split_on c xs) \<Longrightarrow> c \<notin> set w"
  by (induction xs arbitrary: w) (auto split: list.splits if_splits)

lemma takeWhile_upto [simp]: "c \<notin> set s \<Longrightarrow> takeWhile (\<lambda>x. x \<noteq> c) (s @ c # t) = s"
  by (induction s) auto

lemma dropWhile_upto [simp]: "c \<notin> set s \<Longrightarrow> dropWhile (\<lambda>x. x \<noteq> c) (s @ c # t) = c # t"
  by (induction s) auto

lemma partition_on_key [simp]:
  "c \<notin> set k \<Longrightarrow> partition_on c (k @ c # v) = (k, [c], v)"
  by (simp add: partition_on_def)

lemma find_sub_None_iff: "find_sub p s = None \<longleftrightarrow> \<not> sublist p s"
  by (induction s) (auto simp: sublist_Cons_right)

lemma find_sub_Some_prefix: "find_sub p s = Some n \<Longrightarrow> prefix p (drop n s)"
  by (induction s arbitrary: n) (auto split: if_splits)

lemma find_sub_le_length: "find_sub p s = Some n \<Longrightarrow> n + length p \<le> length s"
proof (induction s arbitrary: n)
  case Nil
  then show ?case by (auto split: if_splits)
next
  case (Cons x s)
  then show ?case by (auto split: if_splits dest: prefix_length_le)
qed

lemma find_sub_append_left: "find_sub p s = Some n \<Longrightarrow> find_sub p (s @ t) = Some n"
proof (induction s arbitrary: n)
  case Nil
  then show ?case by (cases t) (auto split: if_splits)
next
  case (Cons x s)
  show ?case
  proof (cases "prefix p (x # s)")
    case True
    then have "prefix p ((x # s) @ t)" by (rule prefix_prefix)
    with True Cons.prems show ?thesis by simp
  next
    case False
    with Cons.prems obtain m where m: "find_sub p s = Some m" "n = Suc m" by auto
    have "\<not> prefix p (x # s @ t)"
    proof
      assume "prefix p (x # s @ t)"
      moreover have "length p \<le> length (x # s)"
        using find_sub_le_length [OF m(1)] by simp
      ultimately show False
        using False by (metis append_Cons prefix_length_prefix prefix_def)
    qed
    then show ?thesis using Cons.IH [OF m(1)] m(2) by simp
  qed
qed

lemma find_sub_take:
  assumes "find_sub p s = Some n"
  shows "find_sub p (take L s) = (if n + length p \<le> L then Some n else None)"
proof (cases "find_sub p (take L s)")
  case (Some j)
  then have "find_sub p (take L s @ drop L s) = Some j" by (rule find_sub_append_left)
  then have "j = n" using assms by simp
  moreover have "j + length p \<le> L" using find_sub_le_length [OF Some] by simp
  ultimately show ?thesis using Some by simp
next
  case None
  have "n + length p \<le> L \<Longrightarrow> sublist p (take L s)"
  proof -
    assume le: "n + length p \<le> L"
    obtain t where "drop n s = p @ t"
      using find_sub_Some_prefix [OF assms] by (auto simp: prefix_def)
    then have "take (L - n) (drop n s) = p @ take (L - n - length p) t" using le by simp
    moreover have "take L s = take n s @ take (L - n) (drop n s)"
      using le by (metis add_leD1 le_add_diff_inverse take_add)
    ultimately show "sublist p (take L s)" by (auto simp: sublist_def)
  qed
  with None show ?thesis by (auto simp: find_sub_None_iff)
qed

lemma find_sub_char: "find_sub [c] s = (if c \<in> set s then Some (length (takeWhile (\<lambda>x. x \<noteq> c) s)) else None)"
  by (induction s) auto

lemma find_sub_char_append [simp]: "c \<notin> set s \<Longrightarrow> find_sub [c] (s @ c # t) = Some (length s)"
  by (simp add: find_sub_char)

text \<open>
  A marker that cannot straddle the join occurs first where it occurs in the right part: the
  fact behind finding a trailer after a body that does not contain it.
\<close>

lemma find_sub_append_right:
  assumes "\<And>i. i < length s \<Longrightarrow> \<not> prefix p (drop i s @ t)"
  shows "find_sub p (s @ t) = map_option ((+) (length s)) (find_sub p t)"
  using assms
proof (induction s)
  case Nil
  then show ?case by (simp add: option.map_ident)
next
  case (Cons x s)
  have "find_sub p (s @ t) = map_option ((+) (length s)) (find_sub p t)"
    using Cons.prems by (intro Cons.IH) (metis Suc_less_eq drop_Suc_Cons length_Cons)
  moreover have "\<not> prefix p (x # s @ t)" using Cons.prems [of 0] by simp
  ultimately show ?case by (simp add: option.map_comp comp_def)
qed

section \<open>Whitespace and case\<close>

definition py_isspace :: "char \<Rightarrow> bool" where
  "py_isspace c \<longleftrightarrow>
     c \<in> set [CHR 0x09, CHR 0x0A, CHR 0x0B, CHR 0x0C, CHR 0x0D,
              CHR 0x1C, CHR 0x1D, CHR 0x1E, CHR 0x1F, CHR 0x20]"

definition strip :: "string \<Rightarrow> string" where
  "strip s = rev (dropWhile py_isspace (rev (dropWhile py_isspace s)))"

text \<open>\<open>s.split()\<close>: the maximal runs of non-space characters.\<close>

fun split_ws_acc :: "string \<Rightarrow> string \<Rightarrow> string list" where
  "split_ws_acc w [] = (if w = [] then [] else [w])"
| "split_ws_acc w (c # cs) =
     (if py_isspace c then (if w = [] then split_ws_acc [] cs else w # split_ws_acc [] cs)
      else split_ws_acc (w @ [c]) cs)"

definition split_ws :: "string \<Rightarrow> string list" where
  "split_ws s = split_ws_acc [] s"

definition lower_char :: "char \<Rightarrow> char" where
  "lower_char c = (let n = of_char c :: nat in if 65 \<le> n \<and> n \<le> 90 then char_of (n + 32) else c)"

definition upper_char :: "char \<Rightarrow> char" where
  "upper_char c = (let n = of_char c :: nat in if 97 \<le> n \<and> n \<le> 122 then char_of (n - 32) else c)"

abbreviation lower :: "string \<Rightarrow> string" where
  "lower s \<equiv> map lower_char s"

abbreviation upper :: "string \<Rightarrow> string" where
  "upper s \<equiv> map upper_char s"

text \<open>A token list that \<open>split()\<close> can return, and its inverse up to spacing.\<close>

definition is_token :: "string \<Rightarrow> bool" where
  "is_token w \<longleftrightarrow> w \<noteq> [] \<and> list_all (\<lambda>c. \<not> py_isspace c) w"

lemma split_ws_acc_word:
  "list_all (\<lambda>c. \<not> py_isspace c) w \<Longrightarrow> split_ws_acc acc (w @ rest) = split_ws_acc (acc @ w) rest"
  by (induction w arbitrary: acc) auto

lemma split_ws_acc_tokens: "t \<in> set (split_ws_acc w s) \<Longrightarrow> list_all (\<lambda>c. \<not> py_isspace c) w \<Longrightarrow> is_token t"
  by (induction w s rule: split_ws_acc.induct) (auto simp: is_token_def split: if_splits)

lemma split_ws_tokens: "t \<in> set (split_ws s) \<Longrightarrow> is_token t"
  by (auto simp: split_ws_def intro: split_ws_acc_tokens)

lemma split_ws_Nil_spaces: "list_all py_isspace s \<Longrightarrow> split_ws s = []"
  by (simp add: split_ws_def) (induction s; simp)

lemma split_ws_single: "is_token w \<Longrightarrow> split_ws w = [w]"
  using split_ws_acc_word [of w "[]" "[]"] by (simp add: split_ws_def is_token_def)

lemma split_ws_cons: "is_token w \<Longrightarrow> split_ws (w @ CHR '' '' # s) = w # split_ws s"
  using split_ws_acc_word [of w "[]" "CHR '' '' # s"]
  by (simp add: split_ws_def is_token_def py_isspace_def)

lemma split_ws_leading_space: "split_ws (CHR '' '' # s) = split_ws s"
  by (simp add: split_ws_def py_isspace_def)

end
