(* ===== verification/PyNum.thy ===== *)
theory PyNum
  imports PyText
begin

text \<open>
  Integers as text: Python's \<open>str(n)\<close>, the format \<open>{n:03d}\<close> and \<open>int(s)\<close> with its
  surrounding whitespace, sign and underscores. (Python's limit of 4300 digits is not modelled.)
\<close>

section \<open>Decimal digits\<close>

definition digit_char :: "nat \<Rightarrow> char" where
  "digit_char d = char_of (48 + d)"

definition is_digit :: "char \<Rightarrow> bool" where
  "is_digit c \<longleftrightarrow> 48 \<le> (of_char c :: nat) \<and> (of_char c :: nat) \<le> 57"

definition digit_val :: "char \<Rightarrow> nat" where
  "digit_val c = of_char c - 48"

fun str_nat :: "nat \<Rightarrow> string" where
  "str_nat n = (if n < 10 then [digit_char n] else str_nat (n div 10) @ [digit_char (n mod 10)])"

declare str_nat.simps [simp del]

definition str_int :: "int \<Rightarrow> string" where
  "str_int i = (if i < 0 then CHR ''-'' # str_nat (nat (- i)) else str_nat (nat i))"

text \<open>The same digits computed on binary integers, which is what evaluation uses.\<close>

function str_digits :: "int \<Rightarrow> string" where
  "str_digits i = (if i < 10 then [digit_char (nat i)]
                   else str_digits (i div 10) @ [digit_char (nat (i mod 10))])"
  by pat_completeness auto
termination by (relation "measure nat") auto

declare str_digits.simps [simp del]

lemma str_digits_nat: "0 \<le> i \<Longrightarrow> str_digits i = str_nat (nat i)"
proof (induction i rule: str_digits.induct)
  case (1 i)
  then show ?case
    by (subst str_digits.simps, subst str_nat.simps)
       (auto simp: nat_div_distrib nat_mod_distrib nat_less_iff)
qed

lemma str_int_code [code]: "str_int i = (if i < 0 then CHR ''-'' # str_digits (- i) else str_digits i)"
  by (simp add: str_int_def str_digits_nat)

text \<open>\<open>{n:03d}\<close> for a non-negative number.\<close>

definition fmt_03d :: "nat \<Rightarrow> string" where
  "fmt_03d n = (let s = str_nat n in replicate (3 - length s) CHR ''0'' @ s)"

lemma of_char_digit_char [simp]: "d < 10 \<Longrightarrow> of_char (digit_char d) = 48 + d"
  by (simp add: digit_char_def)

lemma digit_char_props [simp]:
  assumes "d < 10"
  shows "is_digit (digit_char d)" "digit_val (digit_char d) = d" "is_ascii (digit_char d)"
  using assms by (simp_all add: is_digit_def digit_val_def is_ascii_def)

lemma is_digit_ascii: "is_digit c \<Longrightarrow> is_ascii c"
  by (simp add: is_digit_def is_ascii_def)

lemma str_nat_digits: "list_all is_digit (str_nat n)"
proof (induction n rule: str_nat.induct)
  case (1 n)
  then show ?case by (simp add: str_nat.simps [of n])
qed

lemma str_nat_not_Nil [simp]: "str_nat n \<noteq> []"
  by (subst str_nat.simps) simp

lemma str_nat_ascii [simp]: "list_all is_ascii (str_nat n)"
  using str_nat_digits [of n] by (auto simp: list_all_iff is_digit_ascii)

lemma digit_neq_nondigit: "is_digit c \<Longrightarrow> \<not> is_digit d \<Longrightarrow> c \<noteq> d"
  by auto

lemma notin_str_nat: "\<not> is_digit c \<Longrightarrow> c \<notin> set (str_nat n)"
  using str_nat_digits [of n] by (auto simp: list_all_iff)

lemma not_digit [simp]:
  "\<not> is_digit SEP" "\<not> is_digit CHR ''=''" "\<not> is_digit CHR ''-''" "\<not> is_digit CHR ''+''"
  "\<not> is_digit CHR ''_''" "\<not> is_digit CHR '' ''" "\<not> is_digit CHR ''.''"
  by (simp_all add: is_digit_def)

lemma digit_not_space: "is_digit c \<Longrightarrow> \<not> py_isspace c"
  by (auto simp: is_digit_def py_isspace_def)

lemma length_str_nat_le: "n < 10 ^ k \<Longrightarrow> 0 < k \<Longrightarrow> length (str_nat n) \<le> k"
proof (induction k arbitrary: n)
  case 0
  then show ?case by simp
next
  case (Suc k)
  show ?case
  proof (cases "n < 10")
    case True
    then show ?thesis by (simp add: str_nat.simps [of n])
  next
    case False
    then have "n div 10 < 10 ^ k" "0 < k"
      using Suc.prems by (auto simp: div_less_iff_less_mult mult.commute intro: gr0I)
    then have "length (str_nat (n div 10)) \<le> k" by (rule Suc.IH)
    with False show ?thesis by (simp add: str_nat.simps [of n])
  qed
qed

lemma fmt_03d_length: "n < 1000 \<Longrightarrow> length (fmt_03d n) = 3"
  using length_str_nat_le [of n 3] by (simp add: fmt_03d_def Let_def)

lemma is_digit_zero [simp]: "is_digit CHR ''0''"
  by (simp add: is_digit_def)

lemma fmt_03d_digits: "list_all is_digit (fmt_03d n)"
  using str_nat_digits [of n] by (auto simp: fmt_03d_def Let_def list_all_iff)

section \<open>Parsing\<close>

text \<open>
  \<open>digits_acc acc prev s\<close> reads decimal digits with single underscores between them; \<open>prev\<close>
  says that the last character was a digit.
\<close>

fun digits_acc :: "nat \<Rightarrow> bool \<Rightarrow> string \<Rightarrow> nat option" where
  "digits_acc acc prev [] = (if prev then Some acc else None)"
| "digits_acc acc prev (c # cs) =
     (if is_digit c then digits_acc (acc * 10 + digit_val c) True cs
      else if c = CHR ''_'' \<and> prev then digits_acc acc False cs
      else None)"

definition py_int :: "string \<Rightarrow> int res" where
  "py_int s =
     (let parse = (\<lambda>neg t. case digits_acc 0 False t of
                     None \<Rightarrow> Inl ValueError
                   | Some n \<Rightarrow> Inr (if neg then - int n else int n))
      in case strip s of
           [] \<Rightarrow> Inl ValueError
         | c # cs \<Rightarrow>
             if c = CHR ''-'' then parse True cs
             else if c = CHR ''+'' then parse False cs
             else parse False (c # cs))"

fun digits_value :: "nat \<Rightarrow> string \<Rightarrow> nat" where
  "digits_value acc [] = acc"
| "digits_value acc (c # cs) = digits_value (acc * 10 + digit_val c) cs"

lemma digits_acc_all_digits:
  "list_all is_digit s \<Longrightarrow> digits_acc acc True s = Some (digits_value acc s)"
  by (induction s arbitrary: acc) auto

lemma digits_acc_digits:
  "list_all is_digit s \<Longrightarrow> s \<noteq> [] \<Longrightarrow> digits_acc acc prev s = Some (digits_value acc s)"
  by (cases s) (auto simp: digits_acc_all_digits)

lemma digits_value_append: "digits_value acc (s @ t) = digits_value (digits_value acc s) t"
  by (induction s arbitrary: acc) auto

lemma digits_value_str_nat [simp]: "digits_value 0 (str_nat n) = n"
proof (induction n rule: str_nat.induct)
  case (1 n)
  then show ?case by (simp add: str_nat.simps [of n] digits_value_append)
qed

lemma digits_value_zeros: "digits_value 0 (replicate k CHR ''0'' @ s) = digits_value 0 s"
proof (induction k)
  case (Suc k)
  have "digit_val CHR ''0'' = 0" by (simp add: digit_val_def)
  with Suc show ?case by simp
qed simp

lemma digits_value_fmt_03d: "digits_value 0 (fmt_03d n) = n"
  by (simp add: fmt_03d_def Let_def digits_value_zeros)

lemma dropWhile_hd: "s \<noteq> [] \<Longrightarrow> \<not> P (hd s) \<Longrightarrow> dropWhile P s = s"
  by (cases s) auto

lemma strip_id:
  assumes "s \<noteq> []" "\<not> py_isspace (hd s)" "\<not> py_isspace (last s)"
  shows "strip s = s"
  using assms by (simp add: strip_def dropWhile_hd hd_rev)

lemma strip_no_space: "list_all (\<lambda>c. \<not> py_isspace c) s \<Longrightarrow> strip s = s"
proof (cases "s = []")
  case True
  then show ?thesis by (simp add: strip_def)
next
  case False
  then have "hd s \<in> set s" "last s \<in> set s" by auto
  moreover assume "list_all (\<lambda>c. \<not> py_isspace c) s"
  ultimately show ?thesis using False by (auto simp: list_all_iff intro: strip_id)
qed

lemma strip_str_nat [simp]: "strip (str_nat n) = str_nat n"
  using str_nat_digits [of n]
  by (intro strip_no_space) (auto simp: list_all_iff digit_not_space)

lemma py_int_digits:
  assumes "list_all is_digit s" "s \<noteq> []"
  shows "py_int s = Inr (int (digits_value 0 s))"
proof -
  have strip: "strip s = s"
    using assms by (intro strip_no_space) (auto simp: list_all_iff digit_not_space)
  obtain c cs where s: "s = c # cs" using assms by (cases s) auto
  with assms have "c \<noteq> CHR ''-''" "c \<noteq> CHR ''+''" by auto
  then show ?thesis
    using assms strip s digits_acc_digits [OF assms, of 0 False]
    by (simp add: py_int_def Let_def del: digits_acc.simps digits_value.simps)
qed

lemma py_int_str_nat [simp]: "py_int (str_nat n) = Inr (int n)"
  using py_int_digits [OF str_nat_digits str_nat_not_Nil] by simp

lemma strip_minus_str_nat: "strip (CHR ''-'' # str_nat n) = CHR ''-'' # str_nat n"
proof (rule strip_no_space)
  have "\<not> py_isspace CHR ''-''" by (simp add: py_isspace_def)
  then show "list_all (\<lambda>c. \<not> py_isspace c) (CHR ''-'' # str_nat n)"
    using str_nat_digits [of n] by (auto simp: list_all_iff digit_not_space)
qed

lemma py_int_str_int [simp]: "py_int (str_int i) = Inr i"
proof (cases "i < 0")
  case True
  have "digits_acc 0 False (str_nat (nat (- i))) = Some (nat (- i))"
    using digits_acc_digits [OF str_nat_digits str_nat_not_Nil, of 0 False "nat (- i)"] by simp
  with True show ?thesis
    by (simp add: str_int_def py_int_def strip_minus_str_nat)
next
  case False
  then show ?thesis by (simp add: str_int_def)
qed

lemma str_nat_inject [simp]: "str_nat m = str_nat n \<longleftrightarrow> m = n"
  by (metis digits_value_str_nat)

lemma str_int_inject [simp]: "str_int i = str_int j \<longleftrightarrow> i = j"
  by (metis py_int_str_int sum.inject(2))

end
