(* ===== verification/PyFloat.thy ===== *)
theory PyFloat
  imports PyNum "HOL-Library.Log_Nat"
begin

text \<open>
  Python floats. A finite IEEE 754 double is the rational number it denotes, and an operation of
  the language is the exact rational operation followed by \<open>fl\<close>, rounding to nearest with ties
  to even at 53 bits and the subnormal threshold. Overflow to an infinity is \<open>NonFinite\<close> where
  a literal is read and does not occur for the magnitudes the programs compute with. The signed
  zero is not distinguished. \<open>fl\<close> is shown to return the nearest double, hence to be monotone
  and the identity on doubles, with an error bound: what the proofs about the programs use.
\<close>

section \<open>Rounding\<close>

definition rne :: "rat \<Rightarrow> int" where
  "rne x = (let f = \<lfloor>x\<rfloor>; d = x - of_int f
            in if d < 1 / 2 then f else if 1 / 2 < d then f + 1
               else if even f then f else f + 1)"

definition flog2 :: "rat \<Rightarrow> int" where
  "flog2 x = (let (p, q) = quotient_of x; e = bitlen p - bitlen q
              in if 2 powi e \<le> x then e else e - 1)"

definition fexp :: "rat \<Rightarrow> int" where
  "fexp x = max (flog2 \<bar>x\<bar> - 52) (- 1074)"

definition fl :: "rat \<Rightarrow> rat" where
  "fl x = (if x = 0 then 0 else of_int (rne (x / 2 powi fexp x)) * 2 powi fexp x)"

definition is_double :: "rat \<Rightarrow> bool" where
  "is_double r \<longleftrightarrow> (\<exists>m e. r = of_int m * 2 powi e \<and> \<bar>m\<bar> < 2 ^ 53 \<and> - 1074 \<le> e)"

definition finite_fl :: "rat \<Rightarrow> rat res" where
  "finite_fl v = (let r = fl v in if 2 ^ 1024 \<le> \<bar>r\<bar> then Inl NonFinite else Inr r)"

subsection \<open>Rounding to integers\<close>

text \<open>Evaluation compares with the small bound first.\<close>

lemma finite_fl_code [code]:
  "finite_fl v = (let r = fl v in if \<bar>r\<bar> < 9007199254740992 then Inr r
                  else if 2 ^ 1024 \<le> \<bar>r\<bar> then Inl NonFinite else Inr r)"
proof -
  have "(9007199254740992 :: rat) \<le> 2 ^ 1024"
    using power_increasing [of 53 1024 "2 :: rat"] by simp
  then have "\<not> 2 ^ 1024 \<le> x" if "x < 9007199254740992" for x :: rat
    using that by linarith
  then show ?thesis unfolding finite_fl_def Let_def by simp
qed

lemma rne_error: "\<bar>x - of_int (rne x)\<bar> \<le> 1 / 2"
proof -
  have "of_int \<lfloor>x\<rfloor> \<le> x" "x < of_int \<lfloor>x\<rfloor> + 1" by linarith+
  then show ?thesis by (auto simp: rne_def Let_def)
qed

lemma rne_nearest: "\<bar>x - of_int (rne x)\<bar> \<le> \<bar>x - of_int n\<bar>"
proof (cases "n = rne x")
  case False
  then have "1 \<le> \<bar>n - rne x\<bar>" by linarith
  then have "1 \<le> \<bar>of_int n - of_int (rne x) :: rat\<bar>"
    by (metis of_int_1_le_iff of_int_abs of_int_diff)
  with rne_error [of x] show ?thesis by linarith
qed simp

lemma rne_of_int [simp]: "rne (of_int n) = n"
  by (simp add: rne_def)

lemma rne_le: "\<bar>x\<bar> \<le> of_int n \<Longrightarrow> \<bar>rne x\<bar> \<le> n"
proof -
  assume a: "\<bar>x\<bar> \<le> of_int n"
  have "\<bar>of_int (rne x)\<bar> < (of_int (n + 1) :: rat)"
    using rne_error [of x] a unfolding of_int_add of_int_1 by linarith
  then have "\<bar>rne x\<bar> < n + 1" by (metis of_int_abs of_int_less_iff)
  then show ?thesis by simp
qed

subsection \<open>The binary exponent\<close>

lemma powi_pos [simp]: "0 < (2 :: rat) powi e"
  by simp

lemma powi_mono: "a \<le> b \<Longrightarrow> (2 :: rat) powi a \<le> 2 powi b"
  by (simp add: power_int_increasing)

lemma powi_int: "(2 :: rat) powi int n = 2 ^ n"
  by simp

lemma powi_add: "(2 :: rat) powi (a + b) = 2 powi a * 2 powi b"
  by (simp add: power_int_add)

lemma bitlen_powi:
  assumes "0 < p"
  shows "2 powi (bitlen p - 1) \<le> (of_int p :: rat)" "(of_int p :: rat) < 2 powi (bitlen p)"
proof -
  have "bitlen p \<noteq> 0" using bitlen_bounds [OF assms] assms by auto
  then have b: "1 \<le> bitlen p" using bitlen_nonneg [of p] by linarith
  have "2 ^ nat (bitlen p - 1) \<le> p" "p < 2 ^ nat (bitlen p)"
    using bitlen_bounds [OF assms] by auto
  then have "(2 :: rat) ^ nat (bitlen p - 1) \<le> of_int p" "(of_int p :: rat) < 2 ^ nat (bitlen p)"
    by (metis of_int_le_iff of_int_numeral of_int_power)
       (metis \<open>p < 2 ^ nat (bitlen p)\<close> of_int_less_iff of_int_numeral of_int_power)
  with b show "2 powi (bitlen p - 1) \<le> (of_int p :: rat)" "(of_int p :: rat) < 2 powi (bitlen p)"
    by (simp_all add: power_int_def)
qed

lemma flog2_bounds:
  assumes "0 < x"
  shows "2 powi (flog2 x) \<le> x" "x < 2 powi (flog2 x + 1)"
proof -
  obtain p q where pq: "quotient_of x = (p, q)" by (cases "quotient_of x")
  then have q: "0 < q" and x: "x = of_int p / of_int q"
    using quotient_of_denom_pos quotient_of_div by blast+
  have p: "0 < p" using assms x q by (simp add: zero_less_divide_iff)
  define e where "e = bitlen p - bitlen q"
  note bp = bitlen_powi [OF p] and bq = bitlen_powi [OF q]
  have "(2 :: rat) powi (e - 1) * of_int q \<le> 2 powi (e - 1) * 2 powi (bitlen q)"
    using bq by (intro mult_left_mono) auto
  also have "\<dots> = 2 powi (bitlen p - 1)" by (simp add: e_def powi_add [symmetric])
  also have "\<dots> \<le> of_int p" by (rule bp)
  finally have lo: "2 powi (e - 1) \<le> x" using q unfolding x by (simp add: pos_le_divide_eq)
  have "of_int p < (2 :: rat) powi (e + 1) * 2 powi (bitlen q - 1)"
    using bp by (simp add: e_def powi_add [symmetric])
  also have "\<dots> \<le> 2 powi (e + 1) * of_int q"
    using bq by (intro mult_left_mono) auto
  finally have hi: "x < 2 powi (e + 1)" using q unfolding x by (simp add: pos_divide_less_eq)
  have fx: "flog2 x = (if 2 powi e \<le> x then e else e - 1)"
    by (simp add: flog2_def pq e_def)
  show "2 powi (flog2 x) \<le> x" "x < 2 powi (flog2 x + 1)"
    using lo hi fx by (auto split: if_splits)
qed

subsection \<open>Rounding to doubles\<close>

lemma fl_0 [simp]: "fl 0 = 0"
  by (simp add: fl_def)

lemma fl_multiple_nearest: "\<bar>x - fl x\<bar> \<le> \<bar>x - of_int n * 2 powi fexp x\<bar>"
proof (cases "x = 0")
  case False
  let ?u = "(2 :: rat) powi fexp x"
  have eq: "\<bar>x - of_int k * ?u\<bar> = ?u * \<bar>x / ?u - of_int k\<bar>" for k
  proof -
    have "x - of_int k * ?u = ?u * (x / ?u - of_int k)" by (simp add: right_diff_distrib)
    then show ?thesis by (simp only: abs_mult) simp
  qed
  have "fl x = of_int (rne (x / ?u)) * ?u" using False by (simp add: fl_def)
  then show ?thesis
    using rne_nearest [of "x / ?u" n] by (simp only: eq) (simp add: mult_left_mono)
qed simp

lemma abs_between: "\<bar>r\<bar> \<le> c \<Longrightarrow> c \<le> \<bar>x\<bar> \<Longrightarrow> \<bar>x - sgn x * c\<bar> \<le> \<bar>x - r\<bar>" for x r c :: rat
  by (cases "x = 0"; cases "0 < x") (auto simp: sgn_if abs_if split: if_splits)

theorem fl_nearest:
  assumes "is_double r"
  shows "\<bar>x - fl x\<bar> \<le> \<bar>x - r\<bar>"
proof (cases "x = 0")
  case False
  obtain m e' where r: "r = of_int m * 2 powi e'" and m: "\<bar>m\<bar> < 2 ^ 53" and e': "- 1074 \<le> e'"
    using assms by (auto simp: is_double_def)
  show ?thesis
  proof (cases "fexp x \<le> e'")
    case True
    have "r = of_int (m * 2 ^ nat (e' - fexp x)) * 2 powi fexp x"
      using True r powi_add [of "e' - fexp x" "fexp x"] by (simp add: power_int_def)
    then show ?thesis by (metis fl_multiple_nearest)
  next
    case small: False
    then have k: "fexp x = flog2 \<bar>x\<bar> - 52" using e' by (auto simp: fexp_def max_def split: if_splits)
    have "\<bar>of_int m\<bar> \<le> (2 ^ 53 :: rat)"
      using m by (metis less_imp_le of_int_abs of_int_le_iff of_int_numeral of_int_power)
    then have "\<bar>r\<bar> \<le> 2 ^ 53 * 2 powi (fexp x - 1)"
      using r small by (simp add: abs_mult) (intro mult_mono powi_mono; simp)
    also have "\<dots> = 2 powi flog2 \<bar>x\<bar>"
      using powi_add [of 53 "fexp x - 1"] k by simp
    finally have 1: "\<bar>r\<bar> \<le> 2 powi flog2 \<bar>x\<bar>" .
    have 2: "2 powi flog2 \<bar>x\<bar> \<le> \<bar>x\<bar>" using False by (intro flog2_bounds) simp
    have "sgn x * 2 powi flog2 \<bar>x\<bar> = of_int (\<lfloor>sgn x\<rfloor> * 2 ^ 52) * 2 powi fexp x"
      using powi_add [of 52 "fexp x"] k by (simp add: sgn_if)
    then have "\<bar>x - fl x\<bar> \<le> \<bar>x - sgn x * 2 powi flog2 \<bar>x\<bar>\<bar>" by (metis fl_multiple_nearest)
    also have "\<dots> \<le> \<bar>x - r\<bar>" by (rule abs_between [OF 1 2])
    finally show ?thesis .
  qed
qed simp

lemma is_doubleI: "\<bar>m\<bar> \<le> 2 ^ 53 \<Longrightarrow> - 1074 \<le> e \<Longrightarrow> is_double (of_int m * 2 powi e)"
proof (cases "\<bar>m\<bar> = 2 ^ 53")
  case False
  assume "\<bar>m\<bar> \<le> 2 ^ 53" "- 1074 \<le> e"
  with False show ?thesis unfolding is_double_def by (metis order_less_le)
next
  case True
  assume "- 1074 \<le> e"
  have "m = 2 ^ 53 \<or> m = - (2 ^ 53)" using True by linarith
  then have "of_int m * 2 powi e = (of_int (sgn m * 2 ^ 52) :: rat) * 2 powi (e + 1)"
    using powi_add [of e 1] by auto
  moreover have "\<bar>sgn m * 2 ^ 52\<bar> < (2 :: int) ^ 53" by (simp add: sgn_if)
  moreover have "- 1074 \<le> e + 1" using \<open>- 1074 \<le> e\<close> by simp
  ultimately show ?thesis unfolding is_double_def by blast
qed

lemma fl_double: "is_double (fl x)"
proof (cases "x = 0")
  case True
  then show ?thesis using is_doubleI [of 0 0] by simp
next
  case False
  have "\<bar>x\<bar> < 2 powi (flog2 \<bar>x\<bar> + 1)" using False by (intro flog2_bounds) simp
  also have "\<dots> \<le> 2 powi (53 + fexp x)" by (intro powi_mono) (simp add: fexp_def)
  also have "\<dots> = 2 ^ 53 * 2 powi fexp x" using powi_add [of 53 "fexp x"] by simp
  finally have "\<bar>x / 2 powi fexp x\<bar> \<le> of_int (2 ^ 53)"
    by (simp add: abs_divide pos_divide_le_eq)
  then have "\<bar>rne (x / 2 powi fexp x)\<bar> \<le> 2 ^ 53" by (rule rne_le)
  then show ?thesis using False by (simp add: fl_def is_doubleI fexp_def)
qed

lemma fl_id: "is_double r \<Longrightarrow> fl r = r"
  using fl_nearest [of r r] by simp

lemma fl_fl [simp]: "fl (fl x) = fl x"
  by (rule fl_id [OF fl_double])

theorem fl_mono: "x \<le> y \<Longrightarrow> fl x \<le> fl y"
proof (rule ccontr)
  assume "x \<le> y" and "\<not> fl x \<le> fl y"
  moreover have "\<bar>x - fl x\<bar> \<le> \<bar>x - fl y\<bar>" "\<bar>y - fl y\<bar> \<le> \<bar>y - fl x\<bar>"
    by (intro fl_nearest fl_double)+
  ultimately have "x = y" by (auto simp: abs_if split: if_splits)
  with \<open>\<not> fl x \<le> fl y\<close> show False by simp
qed

lemma is_double_of_int: "\<bar>n\<bar> \<le> 2 ^ 53 \<Longrightarrow> is_double (of_int n)"
  using is_doubleI [of n 0] by simp

lemma is_double_of_nat: "n \<le> 2 ^ 53 \<Longrightarrow> is_double (of_nat n)"
  using is_double_of_int [of "int n"] by (simp flip: of_nat_le_iff)

lemma fl_nonneg: "0 \<le> x \<Longrightarrow> 0 \<le> fl x"
  using fl_mono [of 0 x] by simp

lemma fl_error: "\<bar>x - fl x\<bar> \<le> 2 powi fexp x / 2"
proof (cases "x = 0")
  case False
  let ?u = "(2 :: rat) powi fexp x"
  have "x - fl x = ?u * (x / ?u - of_int (rne (x / ?u)))"
    using False by (simp add: fl_def right_diff_distrib)
  then have "\<bar>x - fl x\<bar> = ?u * \<bar>x / ?u - of_int (rne (x / ?u))\<bar>" by (simp add: abs_mult)
  also have "\<dots> \<le> ?u * (1 / 2)" by (intro mult_left_mono rne_error) simp
  finally show ?thesis by simp
qed simp

lemma fl_error_bound:
  assumes "\<bar>x\<bar> < 2 powi k" "- 1021 \<le> k"
  shows "\<bar>x - fl x\<bar> \<le> 2 powi (k - 54)"
proof (cases "x = 0")
  case False
  then have "2 powi flog2 \<bar>x\<bar> \<le> \<bar>x\<bar>" by (intro flog2_bounds) simp
  with assms have "(2 :: rat) powi flog2 \<bar>x\<bar> < 2 powi k" by linarith
  then have "flog2 \<bar>x\<bar> < k" using powi_mono [of k "flog2 \<bar>x\<bar>"] by (meson linorder_not_less)
  then have "fexp x \<le> k - 53" using assms by (simp add: fexp_def)
  then have "(2 :: rat) powi fexp x \<le> 2 powi (k - 53)" by (rule powi_mono)
  also have "\<dots> = 2 * 2 powi (k - 54)" using powi_add [of 1 "k - 54"] by simp
  finally show ?thesis using fl_error [of x] by simp
qed simp

section \<open>The operations of the language\<close>

definition py_add :: "rat \<Rightarrow> rat \<Rightarrow> rat" where
  "py_add a b = fl (a + b)"

definition py_sub :: "rat \<Rightarrow> rat \<Rightarrow> rat" where
  "py_sub a b = fl (a - b)"

definition py_mul :: "rat \<Rightarrow> rat \<Rightarrow> rat" where
  "py_mul a b = fl (a * b)"

definition py_div :: "rat \<Rightarrow> rat \<Rightarrow> rat res" where
  "py_div a b = (if b = 0 then Inl ZeroDivisionError else Inr (fl (a / b)))"

text \<open>\<open>int(x)\<close> truncates towards zero.\<close>

definition py_trunc :: "rat \<Rightarrow> int" where
  "py_trunc x = (if x < 0 then - \<lfloor>- x\<rfloor> else \<lfloor>x\<rfloor>)"

subsection \<open>\<open>float(s)\<close>\<close>

definition parse_mantissa :: "string \<Rightarrow> (nat \<times> nat) option" where
  "parse_mantissa m =
     (case partition_on CHR ''.'' m of (i, sep, f) \<Rightarrow>
        if sep = [] then map_option (\<lambda>n. (n, 0)) (digits_acc 0 False i)
        else if i = [] \<and> f = [] then None
        else (case (if i = [] then Some 0 else digits_acc 0 False i) of
                None \<Rightarrow> None
              | Some n \<Rightarrow>
                  (let k = length (filter is_digit f)
                   in case (if f = [] then Some 0 else digits_acc 0 False f) of
                        None \<Rightarrow> None
                      | Some d \<Rightarrow> Some (n * 10 ^ k + d, k))))"

definition parse_exponent :: "string \<Rightarrow> int option" where
  "parse_exponent x =
     (case x of
        [] \<Rightarrow> None
      | c # cs \<Rightarrow>
          if c = CHR ''-'' then map_option (\<lambda>n. - int n) (digits_acc 0 False cs)
          else if c = CHR ''+'' then map_option int (digits_acc 0 False cs)
          else map_option int (digits_acc 0 False (c # cs)))"

text \<open>The value of a decimal literal, before rounding.\<close>

definition parse_decimal :: "string \<Rightarrow> rat option" where
  "parse_decimal t =
     (let mant = takeWhile (\<lambda>c. lower_char c \<noteq> CHR ''e'') t;
          rest = dropWhile (\<lambda>c. lower_char c \<noteq> CHR ''e'') t
      in case parse_mantissa mant of
           None \<Rightarrow> None
         | Some (n, k) \<Rightarrow>
             (case rest of
                [] \<Rightarrow> Some (of_nat n / 10 ^ k)
              | e # x \<Rightarrow> map_option (\<lambda>p. of_nat n / 10 ^ k * 10 powi p) (parse_exponent x)))"

definition py_float :: "string \<Rightarrow> rat res" where
  "py_float s =
     (let parse = (\<lambda>neg t.
            if lower t \<in> set [''inf'', ''infinity'', ''nan''] then Inl NonFinite
            else case parse_decimal t of
                   None \<Rightarrow> Inl ValueError
                 | Some v \<Rightarrow> finite_fl (if neg then - v else v))
      in case strip s of
           [] \<Rightarrow> Inl ValueError
         | c # cs \<Rightarrow>
             if c = CHR ''-'' then parse True cs
             else if c = CHR ''+'' then parse False cs
             else parse False (c # cs))"

subsection \<open>Fixed-point formats\<close>

text \<open>\<open>{x:.nf}\<close>: the exact value rounded half to even at \<open>n\<close> decimals.\<close>

definition pad_zeros :: "nat \<Rightarrow> string \<Rightarrow> string" where
  "pad_zeros n s = replicate (n - length s) CHR ''0'' @ s"

definition fmt_fixed :: "nat \<Rightarrow> rat \<Rightarrow> string" where
  "fmt_fixed n x =
     (let m = rne (\<bar>x\<bar> * 10 ^ n)
      in (if x < 0 then ''-'' else []) @ str_int (m div 10 ^ n) @
         (if n = 0 then [] else CHR ''.'' # pad_zeros n (str_int (m mod 10 ^ n))))"

subsection \<open>\<open>str(x)\<close>\<close>

text \<open>
  The shortest decimal that reads back as the float, in fixed notation for decimal exponents from
  -4 to 15 and in exponent notation otherwise. Seventeen significant digits always suffice for a
  double, so the search looks no further.
\<close>

definition flog10 :: "rat \<Rightarrow> int" where
  "flog10 x = (if 1 \<le> x then int (length (str_int \<lfloor>x\<rfloor>)) - 1
               else - int (length (str_int (\<lceil>1 / x\<rceil> - 1))))"

fun shortest_digits :: "nat \<Rightarrow> nat \<Rightarrow> rat \<Rightarrow> int \<times> int" where
  "shortest_digits 0 n x = (0, 0)"
| "shortest_digits (Suc k) n x =
     (let sc = flog10 x - int n + 1; m = rne (x / 10 powi sc)
      in case find (\<lambda>d. fl (of_int d * 10 powi sc) = x) [m, m + 1, m - 1] of
           Some d \<Rightarrow> (d, sc)
         | None \<Rightarrow> shortest_digits k (Suc n) x)"

definition rstrip_zeros :: "string \<Rightarrow> string" where
  "rstrip_zeros s = rev (dropWhile (\<lambda>c. c = CHR ''0'') (rev s))"

definition repr_float :: "rat \<Rightarrow> string" where
  "repr_float x =
     (if x = 0 then ''0.0''
      else case shortest_digits 17 1 \<bar>x\<bar> of (d, sc) \<Rightarrow>
        (let all = str_int d; e = sc + int (length all) - 1; ds = rstrip_zeros all;
             body = (if - 4 \<le> e \<and> e < 16
                     then (if e < 0 then ''0.'' @ replicate (nat (- e - 1)) CHR ''0'' @ ds
                           else let k = nat e + 1
                                in if length ds \<le> k then ds @ replicate (k - length ds) CHR ''0'' @ ''.0''
                                   else take k ds @ ''.'' @ drop k ds)
                     else take 1 ds @ (if length ds = 1 then [] else ''.'' @ drop 1 ds) @ ''e'' @
                          (if e < 0 then ''-'' else ''+'') @ pad_zeros 2 (str_int \<bar>e\<bar>))
         in (if x < 0 then ''-'' else []) @ body))"

lemma py_add_mono: "a \<le> b \<Longrightarrow> c \<le> d \<Longrightarrow> py_add a c \<le> py_add b d"
  by (simp add: py_add_def fl_mono)

end
