(* ===== verification/FixCodec.thy ===== *)
theory FixCodec
  imports PyFloat
begin

text \<open>
  The FIX 4.2 tag=value format as the Python clients use it, and the contract of a codec for it.
  The repository holds three copies of the codec (\<open>ui/fix_client.py\<close>, \<open>tests/helpers.py\<close>,
  \<open>bench/bench.py\<close>); the locale \<open>fix_codec\<close> states what each promises, the laws are proved of
  each copy where it is modelled, and the consequences (round trip, framing) are proved here once.
\<close>

section \<open>Frames\<close>

definition field_text :: "string \<times> string \<Rightarrow> string" where
  "field_text kv = fst kv @ CHR ''='' # snd kv @ [SEP]"

definition fields_text :: "(string \<times> string) list \<Rightarrow> string" where
  "fields_text kvs = concat (map field_text kvs)"

definition byte_sum :: "bytes \<Rightarrow> nat" where
  "byte_sum b = sum_list (map of_char b) mod 256"

definition header_fields :: "string \<Rightarrow> string \<Rightarrow> nat \<Rightarrow> string \<Rightarrow> (string \<times> string) list" where
  "header_fields msg_type sender seq ts =
     [(''35'', msg_type), (''49'', sender), (''56'', ''EXCHANGE''), (''34'', str_nat seq), (''52'', ts)]"

text \<open>
  The frame of a message: BeginString, BodyLength counting the bytes up to the checksum field, the
  body, and the checksum of everything before it as three digits.
\<close>

definition frame_fields :: "(string \<times> string) list \<Rightarrow> (string \<times> string) list" where
  "frame_fields body =
     (''8'', ''FIX.4.2'') # (''9'', str_nat (length (fields_text body))) # body"

definition frame_text :: "(string \<times> string) list \<Rightarrow> bytes" where
  "frame_text body =
     (let raw = fields_text (frame_fields body) in raw @ field_text (''10'', fmt_03d (byte_sum raw)))"

text \<open>What a FIX 4.2 counterparty checks of a frame before it looks at a field.\<close>

definition fix42_frame :: "bytes \<Rightarrow> bool" where
  "fix42_frame m \<longleftrightarrow>
     (\<exists>body ck.
        m = ''8=FIX.4.2'' @ [SEP] @ ''9='' @ str_nat (length body) @ [SEP] @ body @ ''10='' @ ck @ [SEP]
      \<and> length ck = 3 \<and> list_all is_digit ck
      \<and> digits_value 0 ck =
          byte_sum (''8=FIX.4.2'' @ [SEP] @ ''9='' @ str_nat (length body) @ [SEP] @ body))"

section \<open>Reading fields\<close>

text \<open>The pairs of a raw message: split at SOH, keep the pieces with \<open>=\<close>, cut each at its first.\<close>

definition pairs_of :: "bytes \<Rightarrow> (string \<times> string) list" where
  "pairs_of raw =
     map (\<lambda>p. case partition_on CHR ''='' p of (tag, _, val) \<Rightarrow> (tag, val))
       (filter (\<lambda>p. CHR ''='' \<in> set p) (split_on SEP (decode_ascii_replace raw)))"

text \<open>A field that survives the format: ASCII, no SOH, no \<open>=\<close> in the tag.\<close>

definition field_ok :: "string \<times> string \<Rightarrow> bool" where
  "field_ok kv \<longleftrightarrow>
     list_all is_ascii (fst kv) \<and> list_all is_ascii (snd kv) \<and>
     SEP \<notin> set (fst kv) \<and> SEP \<notin> set (snd kv) \<and> CHR ''='' \<notin> set (fst kv)"

text \<open>
  A field that cannot be mistaken for the checksum field by a reader that looks for the bytes
  \<open>10=\<close> anywhere: no \<open>=\<close> in the value, and a tag that does not end in \<open>10\<close>.
\<close>

definition field_plain :: "string \<times> string \<Rightarrow> bool" where
  "field_plain kv \<longleftrightarrow> field_ok kv \<and> CHR ''='' \<notin> set (snd kv) \<and> \<not> suffix ''10'' (fst kv)"

lemma field_text_ascii: "field_ok kv \<Longrightarrow> list_all is_ascii (field_text kv)"
  by (simp add: field_ok_def field_text_def is_ascii_def)

lemma fields_text_ascii: "list_all field_ok kvs \<Longrightarrow> list_all is_ascii (fields_text kvs)"
  by (induction kvs) (auto simp: fields_text_def field_text_ascii)

lemma fields_text_simps [simp]:
  "fields_text [] = []"
  "fields_text (kv # kvs) = field_text kv @ fields_text kvs"
  "fields_text (xs @ ys) = fields_text xs @ fields_text ys"
  by (simp_all add: fields_text_def)

lemma split_fields_text:
  assumes "list_all field_ok kvs"
  shows "split_on SEP (fields_text kvs) = map (\<lambda>kv. fst kv @ CHR ''='' # snd kv) kvs @ [[]]"
proof -
  let ?ws = "map (\<lambda>kv. fst kv @ CHR ''='' # snd kv) kvs"
  have eq: "fields_text kvs = concat (map (\<lambda>w. w @ [SEP]) ?ws)"
    by (induction kvs) (auto simp: field_text_def)
  show ?thesis unfolding eq
    using assms by (intro split_on_terminated) (auto simp: list_all_iff field_ok_def)
qed

lemma pairs_of_fields_text: "list_all field_ok kvs \<Longrightarrow> pairs_of (fields_text kvs) = kvs"
proof -
  assume ok: "list_all field_ok kvs"
  have "map (\<lambda>p. case partition_on CHR ''='' p of (tag, _, val) \<Rightarrow> (tag, val))
          (map (\<lambda>kv. fst kv @ CHR ''='' # snd kv) kvs) = kvs"
    using ok by (induction kvs) (auto simp: field_ok_def)
  then show ?thesis
    using ok by (simp add: pairs_of_def fields_text_ascii split_fields_text filter_map comp_def)
qed

section \<open>The checksum field ends a frame\<close>

text \<open>
  The readers cut their buffer at the first SOH after the first \<open>10=\<close>. A message is framed when
  that cut is its end.
\<close>

definition framed :: "bytes \<Rightarrow> bool" where
  "framed m =
     (case find_sub ''10='' m of
        None \<Rightarrow> False
      | Some n \<Rightarrow> index_from SEP m n = Some (length m - 1))"

lemma index_from_append: "index_from c s n = Some j \<Longrightarrow> index_from c (s @ t) n = Some j"
  by (auto simp: index_from_def find_sub_append_left)

lemma index_from_less: "index_from c s n = Some j \<Longrightarrow> j < length s"
  by (auto simp: index_from_def dest!: find_sub_le_length)

lemma framed_not_Nil: "framed m \<Longrightarrow> m \<noteq> []"
  by (auto simp: framed_def)

lemma framed_Suc: "framed m \<Longrightarrow> Suc (length m - 1) = length m"
  using framed_not_Nil by fastforce

lemma framed_cut:
  assumes "framed m"
  obtains n where "find_sub ''10='' (m @ rest) = Some n"
    and "index_from SEP (m @ rest) n = Some (length m - 1)"
  using assms by (auto simp: framed_def find_sub_append_left index_from_append split: option.splits)

lemma framed_incomplete:
  assumes "framed m" "m = buf @ t" "t \<noteq> []" "find_sub ''10='' buf = Some n"
  shows "index_from SEP buf n = None"
proof (rule ccontr)
  assume "index_from SEP buf n \<noteq> None"
  then obtain j where j: "index_from SEP buf n = Some j" by blast
  have "index_from SEP m n = Some (length m - 1)"
    using assms by (auto simp: framed_def find_sub_append_left)
  with index_from_append [OF j, of t] assms(2) have "j = length m - 1" by simp
  with index_from_less [OF j] assms(2,3) show False by (cases t) auto
qed

lemma field_no_marker:
  assumes "field_plain kv" "i < length (field_text kv)"
  shows "\<not> prefix ''10='' (drop i (field_text kv) @ t)"
proof
  let ?k = "fst kv" and ?v = "snd kv"
  have k: "CHR ''='' \<notin> set ?k" "\<not> suffix ''10'' ?k" and v: "CHR ''='' \<notin> set ?v"
    using assms(1) by (auto simp: field_plain_def field_ok_def)
  assume p: "prefix ''10='' (drop i (field_text kv) @ t)"
  show False
  proof (cases "i < length ?k")
    case True
    then obtain c cs where c: "drop i ?k = c # cs" by (cases "drop i ?k") auto
    have d: "drop i (field_text kv) = (c # cs) @ CHR ''='' # ?v @ [SEP]"
      using True c by (simp add: field_text_def)
    have "set (c # cs) \<subseteq> set ?k" using c by (metis set_drop_subset)
    then have "drop i ?k = ''10''"
      using p k(1) c by (cases cs; cases "tl cs") (auto simp: d)
    then show False using k(2) by (metis suffix_drop)
  next
    case False
    then obtain j where j: "i = length ?k + j" by (metis le_Suc_ex not_less)
    show False
    proof (cases j)
      case 0
      then show False using p j by (simp add: field_text_def)
    next
      case (Suc j')
      have d: "drop i (field_text kv) = drop j' ?v @ drop (j' - length ?v) [SEP]"
        using j Suc by (simp add: field_text_def)
      have le: "j' \<le> length ?v" using assms(2) j Suc by (simp add: field_text_def)
      have "set (drop j' ?v) \<subseteq> set ?v" by (rule set_drop_subset)
      then show False
        using p v le by (cases "drop j' ?v"; cases "tl (drop j' ?v)"; cases "tl (tl (drop j' ?v))")
          (auto simp: d)
    qed
  qed
qed

lemma fields_no_marker:
  assumes "list_all field_plain kvs" "i < length (fields_text kvs)"
  shows "\<not> prefix ''10='' (drop i (fields_text kvs) @ t)"
  using assms
proof (induction kvs arbitrary: i)
  case Nil
  then show ?case by simp
next
  case (Cons kv kvs)
  show ?case
  proof (cases "i < length (field_text kv)")
    case True
    then show ?thesis
      using field_no_marker [of kv i "fields_text kvs @ t"] Cons.prems by simp
  next
    case False
    then show ?thesis
      using Cons.IH [of "i - length (field_text kv)"] Cons.prems by simp
  qed
qed

lemma framed_fields:
  assumes "list_all field_plain kvs" "list_all is_digit ck"
  shows "framed (fields_text kvs @ field_text (''10'', ck))"
proof -
  let ?m = "fields_text kvs @ field_text (''10'', ck)"
  have "find_sub ''10='' ?m = map_option ((+) (length (fields_text kvs))) (find_sub ''10='' (field_text (''10'', ck)))"
    using fields_no_marker [OF assms(1)] by (rule find_sub_append_right)
  also have "find_sub ''10='' (field_text (''10'', ck)) = Some 0"
    by (simp add: field_text_def)
  finally have f: "find_sub ''10='' ?m = Some (length (fields_text kvs))" by simp
  have "SEP \<notin> set (''10='' @ ck)" using assms(2) by (auto simp: list_all_iff)
  then have "find_sub [SEP] (''10='' @ ck @ [SEP]) = Some (length (''10='' @ ck))"
    using find_sub_char_append [of SEP "''10='' @ ck" "[]"] by simp
  then have "index_from SEP ?m (length (fields_text kvs)) = Some (length ?m - 1)"
    by (simp add: index_from_def field_text_def)
  with f show ?thesis by (simp add: framed_def)
qed

section \<open>Properties of frames\<close>

lemma byte_sum_less: "byte_sum b < 1000"
  by (simp add: byte_sum_def order_less_trans [OF mod_less_divisor])

lemma frame_fields_ok: "list_all field_ok body \<Longrightarrow> list_all field_ok (frame_fields body)"
  by (auto simp: frame_fields_def field_ok_def is_ascii_def notin_str_nat)

lemma checksum_field_ok: "field_ok (''10'', fmt_03d n)"
proof -
  have "list_all is_ascii ''10''" by (simp add: is_ascii_def)
  then show ?thesis
    using fmt_03d_digits [of n] by (auto simp: field_ok_def list_all_iff is_digit_ascii)
qed

lemma suffix_single: "\<not> suffix ''10'' [c]"
  by (simp add: suffix_Cons)

lemma frame_fields_plain: "list_all field_plain body \<Longrightarrow> list_all field_plain (frame_fields body)"
  by (auto simp: frame_fields_def field_plain_def field_ok_def is_ascii_def notin_str_nat suffix_single)

lemma frame_text_eq:
  "frame_text body =
     fields_text (frame_fields body) @ field_text (''10'', fmt_03d (byte_sum (fields_text (frame_fields body))))"
  by (simp add: frame_text_def Let_def)

lemma frame_text_as_fields:
  "frame_text body =
     fields_text (frame_fields body @ [(''10'', fmt_03d (byte_sum (fields_text (frame_fields body))))])"
  by (simp add: frame_text_eq)

lemma frame_text_ascii: "list_all field_ok body \<Longrightarrow> list_all is_ascii (frame_text body)"
  unfolding frame_text_as_fields
  by (intro fields_text_ascii) (simp add: frame_fields_ok checksum_field_ok)

lemma pairs_of_frame_text:
  "list_all field_ok body \<Longrightarrow>
   pairs_of (frame_text body) =
     frame_fields body @ [(''10'', fmt_03d (byte_sum (fields_text (frame_fields body))))]"
  unfolding frame_text_as_fields
  by (intro pairs_of_fields_text) (simp add: frame_fields_ok checksum_field_ok)

lemma framed_frame_text: "list_all field_plain body \<Longrightarrow> framed (frame_text body)"
  unfolding frame_text_eq by (intro framed_fields frame_fields_plain fmt_03d_digits)

lemma fix42_frame_text: "fix42_frame (frame_text body)"
proof -
  let ?b = "fields_text body"
  let ?raw = "''8=FIX.4.2'' @ [SEP] @ ''9='' @ str_nat (length ?b) @ [SEP] @ ?b"
  let ?ck = "fmt_03d (byte_sum ?raw)"
  have "fields_text (frame_fields body) = ?raw"
    by (simp add: frame_fields_def field_text_def)
  then have "frame_text body = ?raw @ ''10='' @ ?ck @ [SEP]"
    by (simp add: frame_text_eq field_text_def)
  moreover have "length ?ck = 3" "list_all is_digit ?ck" "digits_value 0 ?ck = byte_sum ?raw"
    by (simp_all only: fmt_03d_length byte_sum_less fmt_03d_digits digits_value_fmt_03d)
  ultimately show ?thesis unfolding fix42_frame_def by (intro exI [of _ ?b] exI [of _ ?ck]) simp
qed

section \<open>The contract of a codec\<close>

text \<open>
  \<open>build ts msg_type seq body sender\<close> is the encoder with the clock's reading \<open>ts\<close> as an
  argument, \<open>parse\<close> the decoder's dictionary. The laws say which bytes the encoder emits when
  every field survives the format, and which dictionary the decoder returns for any bytes.
\<close>

definition message_fields ::
  "string \<Rightarrow> string \<Rightarrow> nat \<Rightarrow> (string \<times> string) list \<Rightarrow> string \<Rightarrow> (string \<times> string) list" where
  "message_fields ts msg_type seq body sender = header_fields msg_type sender seq ts @ body"

locale fix_codec =
  fixes build :: "string \<Rightarrow> string \<Rightarrow> nat \<Rightarrow> (string \<times> string) list \<Rightarrow> string \<Rightarrow> bytes res"
    and parse :: "bytes \<Rightarrow> (string, string) dict"
  assumes build_frame:
      "list_all is_ascii (fields_text (message_fields ts msg_type seq body sender)) \<Longrightarrow>
       build ts msg_type seq body sender = Inr (frame_text (message_fields ts msg_type seq body sender))"
    and build_error:
      "\<not> list_all is_ascii (fields_text (message_fields ts msg_type seq body sender)) \<Longrightarrow>
       build ts msg_type seq body sender = Inl UnicodeEncodeError"
    and parse_pairs: "parse raw = dict_of (pairs_of raw)"
begin

lemma build_fields:
  "list_all field_ok (message_fields ts msg_type seq body sender) \<Longrightarrow>
   build ts msg_type seq body sender = Inr (frame_text (message_fields ts msg_type seq body sender))"
  by (simp add: build_frame fields_text_ascii)

lemma build_fix42: "build ts msg_type seq body sender = Inr m \<Longrightarrow> fix42_frame m"
  by (cases "list_all is_ascii (fields_text (message_fields ts msg_type seq body sender))")
    (auto simp: build_frame build_error fix42_frame_text)

lemma parse_frame:
  "list_all field_ok kvs \<Longrightarrow>
   parse (frame_text kvs) =
     dict_of (frame_fields kvs @ [(''10'', fmt_03d (byte_sum (fields_text (frame_fields kvs))))])"
  by (simp add: parse_pairs pairs_of_frame_text)

lemma parse_build_get:
  assumes ok: "list_all field_ok (message_fields ts msg_type seq body sender)"
    and m: "build ts msg_type seq body sender = Inr m"
    and keys: "distinct (map fst (frame_fields (message_fields ts msg_type seq body sender)))"
              "''10'' \<notin> fst ` set body"
    and kv: "(k, v) \<in> set (message_fields ts msg_type seq body sender)"
  shows "map_of (parse m) k = Some v"
proof -
  let ?kvs = "message_fields ts msg_type seq body sender"
  let ?all = "frame_fields ?kvs @ [(''10'', fmt_03d (byte_sum (fields_text (frame_fields ?kvs))))]"
  have "m = frame_text ?kvs" using m build_fields [OF ok] by simp
  then have "parse m = dict_of ?all" using parse_frame [OF ok] by simp
  moreover have "distinct (map fst ?all)"
    using keys by (auto simp: frame_fields_def message_fields_def header_fields_def)
  moreover have "(k, v) \<in> set ?all" using kv by (simp add: frame_fields_def)
  ultimately show ?thesis by (simp only: dict_of_distinct map_of_is_SomeI)
qed

lemma build_framed:
  "list_all field_plain (message_fields ts msg_type seq body sender) \<Longrightarrow>
   build ts msg_type seq body sender = Inr m \<Longrightarrow> framed m"
proof -
  assume p: "list_all field_plain (message_fields ts msg_type seq body sender)"
  then have "list_all field_ok (message_fields ts msg_type seq body sender)"
    by (auto simp: list_all_iff field_plain_def)
  moreover assume "build ts msg_type seq body sender = Inr m"
  ultimately show "framed m" using build_fields framed_frame_text [OF p] by simp
qed

end

section \<open>The contract of a sending session\<close>

text \<open>
  \<open>numbered build sender seq out\<close>: the messages \<open>out\<close> carry the sequence numbers 1, 2, 3, ...
  in the order they were sent, and \<open>seq\<close> is the number the next one gets.
\<close>

definition numbered ::
  "(string \<Rightarrow> string \<Rightarrow> nat \<Rightarrow> (string \<times> string) list \<Rightarrow> string \<Rightarrow> bytes res)
     \<Rightarrow> string \<Rightarrow> nat \<Rightarrow> bytes list \<Rightarrow> bool" where
  "numbered build sender seq out \<longleftrightarrow>
     seq = Suc (length out) \<and>
     (\<forall>i < length out. \<exists>ts msg_type body. build ts msg_type (Suc i) body sender = Inr (out ! i))"

lemma numbered_start: "numbered build sender 1 []"
  by (simp add: numbered_def)

lemma numbered_step:
  assumes "numbered build sender seq out" "build ts msg_type seq body sender = Inr m"
  shows "numbered build sender (seq + 1) (out @ [m])"
  using assms by (auto simp: numbered_def nth_append less_Suc_eq)

locale fix_sender = fix_codec build parse
  for build :: "string \<Rightarrow> string \<Rightarrow> nat \<Rightarrow> (string \<times> string) list \<Rightarrow> string \<Rightarrow> bytes res"
    and parse :: "bytes \<Rightarrow> (string, string) dict" +
  fixes send :: "string \<Rightarrow> string \<Rightarrow> (string \<times> string) list \<Rightarrow> 's \<Rightarrow> unit res \<times> 's"
    and sender_of :: "'s \<Rightarrow> string" and seq_of :: "'s \<Rightarrow> nat" and out_of :: "'s \<Rightarrow> bytes list"
  assumes send_ok:
      "build ts msg_type (seq_of s) body (sender_of s) = Inr m \<Longrightarrow>
       send ts msg_type body s = (r, s') \<Longrightarrow>
       r = Inr () \<and> sender_of s' = sender_of s \<and> seq_of s' = seq_of s + 1 \<and> out_of s' = out_of s @ [m]"
    and send_error:
      "build ts msg_type (seq_of s) body (sender_of s) = Inl e \<Longrightarrow>
       send ts msg_type body s = (r, s') \<Longrightarrow>
       r = Inl e \<and> sender_of s' = sender_of s \<and> seq_of s' = seq_of s \<and> out_of s' = out_of s"
begin

lemma send_numbered:
  assumes "numbered build (sender_of s) (seq_of s) (out_of s)"
  shows "numbered build (sender_of (snd (send ts mt body s))) (seq_of (snd (send ts mt body s)))
           (out_of (snd (send ts mt body s)))"
proof (cases "build ts mt (seq_of s) body (sender_of s)")
  case (Inl e)
  then show ?thesis using send_error [OF Inl surjective_pairing] assms by simp
next
  case (Inr m)
  then show ?thesis using send_ok [OF Inr surjective_pairing] numbered_step [OF assms Inr] by simp
qed

lemma send_many_numbered:
  "numbered build (sender_of s) (seq_of s) (out_of s) \<Longrightarrow>
   s' = fold (\<lambda>(ts, mt, body) s. snd (send ts mt body s)) reqs s \<Longrightarrow>
   numbered build (sender_of s') (seq_of s') (out_of s')"
  by (induction reqs arbitrary: s) (auto simp: send_numbered)

lemma send_appends:
  "\<exists>ms. out_of (snd (send ts mt body s)) = out_of s @ ms \<and> length ms \<le> 1"
  using send_ok [OF _ surjective_pairing, of ts mt s body] send_error [OF _ surjective_pairing, of ts mt s body]
  by (cases "build ts mt (seq_of s) body (sender_of s)") auto

end

end
