(* ===== verification/FixClient.thy ===== *)
theory FixClient
  imports FixCodec
begin

text \<open>
  \<open>ui/fix_client.py\<close>: the FIX codec of the trading UI and the session object \<open>AsyncFixSession\<close>.
  The clock is an argument (\<open>ts\<close>), the socket is part of the session's state: \<open>afs_reader\<close> is
  what the network will deliver, \<open>afs_writer\<close> the messages handed to the transport. A read
  delivers a \<open>Chunk\<close>; an empty chunk, or the end of the list, is the end of the stream;
  \<open>Expire\<close> is the moment the timer of an enclosing \<open>asyncio.wait_for\<close> runs out, which a read
  without a timer does not notice.
\<close>

section \<open>The codec\<close>

definition TARGET :: string where
  "TARGET = ''EXCHANGE''"

definition checksum :: "string \<Rightarrow> string res" where
  "checksum data =
     res_bind (encode_ascii data) (\<lambda>b. Inr (fmt_03d (sum_list (map of_char b) mod 256)))"

definition build_message ::
  "string \<Rightarrow> string \<Rightarrow> nat \<Rightarrow> (string \<times> string) list \<Rightarrow> string \<Rightarrow> bytes res" where
  "build_message ts msg_type seq body_fields sender =
     (let header = ''35='' @ msg_type @ [SEP] @
                   ''49='' @ sender @ [SEP] @
                   ''56='' @ TARGET @ [SEP] @
                   ''34='' @ str_nat seq @ [SEP] @
                   ''52='' @ ts @ [SEP];
          body = header @ concat (map (\<lambda>(k, v). k @ ''='' @ v @ [SEP]) body_fields)
      in res_bind (encode_ascii body) (\<lambda>b.
           let prefix = ''8=FIX.4.2'' @ [SEP] @ ''9='' @ str_nat (length b) @ [SEP];
               raw = prefix @ body
           in res_bind (checksum raw) (\<lambda>ck. encode_ascii (raw @ ''10='' @ ck @ [SEP]))))"

text \<open>A repeating-group entry of a market data snapshot, the dictionary \<open>cur\<close> of the parser.\<close>

record md_entry =
  e_type :: string
  e_price :: "rat option"
  e_qty :: "int option"
  e_eid :: "string option"
  e_date :: "string option"
  e_time :: "string option"

definition new_entry :: "string \<Rightarrow> md_entry" where
  "new_entry v = \<lparr>e_type = v, e_price = None, e_qty = None, e_eid = None, e_date = None, e_time = None\<rparr>"

text \<open>
  The dictionary \<open>parse_fields\<close> returns: the string-valued tags, and the list under
  \<open>md_entries\<close> that only a snapshot (35=W) has.
\<close>

record fix_msg =
  fm_fields :: "(string, string) dict"
  fm_entries :: "md_entry list option"

definition push_entry :: "md_entry list \<Rightarrow> md_entry option \<Rightarrow> md_entry list" where
  "push_entry entries cur = (case cur of None \<Rightarrow> entries | Some c \<Rightarrow> entries @ [c])"

fun md_scan :: "(string \<times> string) list \<Rightarrow> md_entry list \<Rightarrow> md_entry option \<Rightarrow> md_entry list res" where
  "md_scan [] entries cur = Inr (push_entry entries cur)"
| "md_scan ((tag, val) # ps) entries cur =
     (if tag = ''269'' then md_scan ps (push_entry entries cur) (Some (new_entry val))
      else case cur of
        None \<Rightarrow> md_scan ps entries None
      | Some c \<Rightarrow>
          if tag = ''270'' then
            res_bind (py_float val) (\<lambda>p. md_scan ps entries (Some (c\<lparr>e_price := Some p\<rparr>)))
          else if tag = ''271'' then
            res_bind (py_float val) (\<lambda>q. md_scan ps entries (Some (c\<lparr>e_qty := Some (py_trunc q)\<rparr>)))
          else if tag = ''278'' then md_scan ps entries (Some (c\<lparr>e_eid := Some val\<rparr>))
          else if tag = ''272'' then md_scan ps entries (Some (c\<lparr>e_date := Some val\<rparr>))
          else if tag = ''273'' then md_scan ps entries (Some (c\<lparr>e_time := Some val\<rparr>))
          else md_scan ps entries cur)"

definition parse_dict :: "bytes \<Rightarrow> (string, string) dict" where
  "parse_dict raw =
     fold (\<lambda>pair fields.
             if CHR ''='' \<in> set pair
             then (case partition_on CHR ''='' pair of (tag, _, val) \<Rightarrow> AList.update tag val fields)
             else fields)
       (split_on SEP (decode_ascii_replace raw)) []"

definition parse_fields :: "bytes \<Rightarrow> fix_msg res" where
  "parse_fields raw =
     (let fields = parse_dict raw
      in if map_of fields ''35'' = Some ''W''
         then res_bind (md_scan (pairs_of raw) [] None)
                (\<lambda>entries. Inr \<lparr>fm_fields = fields, fm_entries = Some entries\<rparr>)
         else Inr \<lparr>fm_fields = fields, fm_entries = None\<rparr>)"

text \<open>\<open>msg.get(tag, default)\<close> and \<open>msg.get(tag)\<close>.\<close>

definition msg_get :: "fix_msg \<Rightarrow> string \<Rightarrow> string \<Rightarrow> string" where
  "msg_get m tag dflt = dict_get (fm_fields m) tag dflt"

abbreviation msg_tag :: "fix_msg \<Rightarrow> string \<Rightarrow> string option" where
  "msg_tag m tag \<equiv> map_of (fm_fields m) tag"

section \<open>The session\<close>

datatype net_event = Chunk bytes | Expire

record AsyncFixSession =
  afs_sender :: string
  afs_seq :: nat
  afs_buf :: bytes
  afs_reader :: "net_event list"
  afs_writer :: "bytes list"
  afs_order_statuses :: "fix_msg list"

definition AsyncFixSession_init :: "string \<Rightarrow> AsyncFixSession" where
  "AsyncFixSession_init sender =
     \<lparr>afs_sender = sender, afs_seq = 1, afs_buf = [], afs_reader = [], afs_writer = [],
      afs_order_statuses = []\<rparr>"

definition AsyncFixSession_connect :: "net_event list \<Rightarrow> AsyncFixSession \<Rightarrow> AsyncFixSession" where
  "AsyncFixSession_connect incoming s = s\<lparr>afs_reader := incoming, afs_writer := []\<rparr>"

definition AsyncFixSession_send ::
  "string \<Rightarrow> string \<Rightarrow> (string \<times> string) list \<Rightarrow> AsyncFixSession \<Rightarrow> unit res \<times> AsyncFixSession" where
  "AsyncFixSession_send ts msg_type body s =
     (case build_message ts msg_type (afs_seq s) body (afs_sender s) of
        Inl e \<Rightarrow> (Inl e, s)
      | Inr msg \<Rightarrow> (Inr (), s\<lparr>afs_seq := afs_seq s + 1, afs_writer := afs_writer s @ [msg]\<rparr>))"

text \<open>
  The loop of \<open>recv\<close> over the buffer and the network; \<open>timed\<close> says that an enclosing
  \<open>wait_for\<close> is running. It ends: each round that does not return takes an event off the network.
\<close>

fun recv_loop :: "bool \<Rightarrow> bytes \<Rightarrow> net_event list \<Rightarrow> bytes res \<times> bytes \<times> net_event list" where
  "recv_loop timed buf net =
     (case find_sub ''10='' buf of
        Some end \<Rightarrow>
          (case index_from SEP buf end of
             None \<Rightarrow> (Inl ValueError, buf, net)
           | Some soh \<Rightarrow> (Inr (take (soh + 1) buf), drop (soh + 1) buf, net))
      | None \<Rightarrow>
          (case net of
             [] \<Rightarrow> (Inl ConnectionError, buf, [])
           | Chunk c # rest \<Rightarrow>
               if c = [] then (Inl ConnectionError, buf, rest) else recv_loop timed (buf @ c) rest
           | Expire # rest \<Rightarrow>
               if timed then (Inl TimeoutError, buf, rest) else recv_loop timed buf rest))"

declare recv_loop.simps [simp del]

definition AsyncFixSession_recv :: "bool \<Rightarrow> AsyncFixSession \<Rightarrow> fix_msg res \<times> AsyncFixSession" where
  "AsyncFixSession_recv timed s =
     (case recv_loop timed (afs_buf s) (afs_reader s) of
        (r, buf, net) \<Rightarrow> (res_bind r parse_fields, s\<lparr>afs_buf := buf, afs_reader := net\<rparr>))"

text \<open>
  A message taken from the stream makes what is left of it shorter, so draining the stream ends.
\<close>

definition net_weight :: "bytes \<Rightarrow> net_event list \<Rightarrow> nat" where
  "net_weight buf net =
     length buf + sum_list (map (\<lambda>ev. case ev of Chunk c \<Rightarrow> length c + 1 | Expire \<Rightarrow> 1) net)"

lemma recv_loop_hit:
  "find_sub ''10='' buf = Some n \<Longrightarrow>
   recv_loop timed buf net =
     (case index_from SEP buf n of
        None \<Rightarrow> (Inl ValueError, buf, net)
      | Some soh \<Rightarrow> (Inr (take (soh + 1) buf), drop (soh + 1) buf, net))"
  by (simp add: recv_loop.simps [of timed buf net])

lemma recv_loop_wait:
  assumes "find_sub ''10='' buf = None"
  shows "recv_loop timed buf [] = (Inl ConnectionError, buf, [])"
    and "recv_loop timed buf (Chunk c # rest) =
           (if c = [] then (Inl ConnectionError, buf, rest) else recv_loop timed (buf @ c) rest)"
    and "recv_loop timed buf (Expire # rest) =
           (if timed then (Inl TimeoutError, buf, rest) else recv_loop timed buf rest)"
  by (subst recv_loop.simps, simp add: assms)+

lemma recv_loop_weight:
  "recv_loop timed buf net = (Inr m, buf', net') \<Longrightarrow> net_weight buf' net' < net_weight buf net"
proof (induction net arbitrary: buf)
  case Nil
  then show ?case
    by (cases "find_sub ''10='' buf")
      (auto simp: recv_loop_hit recv_loop_wait net_weight_def dest!: find_sub_le_length
        split: option.splits)
next
  case (Cons ev net)
  show ?case
  proof (cases "find_sub ''10='' buf")
    case (Some n)
    then have "buf \<noteq> []" by auto
    with Some Cons.prems show ?thesis
      by (auto simp: recv_loop_hit net_weight_def split: option.splits)
  next
    case None
    have "net_weight buf' net' < net_weight (buf @ c) net" if "ev = Chunk c" for c
      using Cons that None by (auto simp: recv_loop_wait split: if_splits)
    moreover have "net_weight buf' net' < net_weight buf net" if "ev = Expire"
      using Cons that None by (auto simp: recv_loop_wait split: if_splits)
    ultimately show ?thesis by (cases ev) (fastforce simp: net_weight_def)+
  qed
qed

lemma AsyncFixSession_recv_Inr:
  assumes "AsyncFixSession_recv timed s = (Inr msg, s')"
  obtains m where "recv_loop timed (afs_buf s) (afs_reader s) = (Inr m, afs_buf s', afs_reader s')"
    and "parse_fields m = Inr msg" and "s' = s\<lparr>afs_buf := afs_buf s', afs_reader := afs_reader s'\<rparr>"
  using assms by (auto simp: AsyncFixSession_recv_def res_bind_Inr split: prod.splits)

definition is_order_status :: "fix_msg \<Rightarrow> bool" where
  "is_order_status msg \<longleftrightarrow>
     msg_tag msg ''35'' = Some ''8'' \<and>
     (msg_tag msg ''150'' = Some ''I'' \<or> msg_tag msg ''150'' = Some ''2'' \<or> msg_tag msg ''150'' = Some ''4'')"

function logon_drain :: "AsyncFixSession \<Rightarrow> unit res \<times> AsyncFixSession" where
  "logon_drain s =
     (case AsyncFixSession_recv True s of
        (Inr msg, s') \<Rightarrow>
          logon_drain
            (if is_order_status msg
             then s'\<lparr>afs_order_statuses := afs_order_statuses s' @ [msg]\<rparr> else s')
      | (Inl e, s') \<Rightarrow> if e = TimeoutError then (Inr (), s') else (Inl e, s'))"
  by pat_completeness auto
termination
proof (relation "measure (\<lambda>s. net_weight (afs_buf s) (afs_reader s))", goal_cases)
  case 1
  then show ?case by simp
next
  case (2 s r s' msg)
  from 2(1) 2(2) have "AsyncFixSession_recv True s = (Inr msg, s')" by simp
  then show ?case by (auto elim!: AsyncFixSession_recv_Inr dest!: recv_loop_weight)
qed

declare logon_drain.simps [simp del]

definition AsyncFixSession_logon :: "string \<Rightarrow> AsyncFixSession \<Rightarrow> fix_msg res \<times> AsyncFixSession" where
  "AsyncFixSession_logon ts s =
     (case AsyncFixSession_send ts ''A'' [(''98'', ''0''), (''108'', ''30'')] (s\<lparr>afs_order_statuses := []\<rparr>) of
        (Inl e, s1) \<Rightarrow> (Inl e, s1)
      | (Inr _, s1) \<Rightarrow>
          (case AsyncFixSession_recv False s1 of
             (Inl e, s2) \<Rightarrow> (Inl e, s2)
           | (Inr resp, s2) \<Rightarrow>
               if msg_tag resp ''35'' \<noteq> Some ''A''
               then (Inl (RuntimeError ''Expected Logon response''), s2)
               else (case logon_drain s2 of
                       (Inl e, s3) \<Rightarrow> (Inl e, s3)
                     | (Inr _, s3) \<Rightarrow> (Inr resp, s3))))"

definition AsyncFixSession_logout :: "string \<Rightarrow> AsyncFixSession \<Rightarrow> AsyncFixSession" where
  "AsyncFixSession_logout ts s = snd (AsyncFixSession_send ts ''5'' [(''58'', ''Normal logout'')] s)"

section \<open>The codec keeps its contract\<close>

lemma parse_dict_pairs: "parse_dict raw = dict_of (pairs_of raw)"
proof -
  have "fold (\<lambda>pair fields. if CHR ''='' \<in> set pair
               then (case partition_on CHR ''='' pair of (tag, _, val) \<Rightarrow> AList.update tag val fields)
               else fields) ps d
      = fold (\<lambda>(k, v). AList.update k v)
          (map (\<lambda>p. case partition_on CHR ''='' p of (tag, _, val) \<Rightarrow> (tag, val))
            (filter (\<lambda>p. CHR ''='' \<in> set p) ps)) d" for ps :: "string list" and d
    by (induction ps arbitrary: d) (auto split: prod.splits)
  then show ?thesis by (simp add: parse_dict_def pairs_of_def dict_of_def)
qed

lemma body_text_eq:
  "concat (map (\<lambda>(k, v). k @ ''='' @ v @ [SEP]) kvs) = fields_text kvs"
  by (induction kvs) (auto simp: field_text_def)

lemma header_text_eq:
  "''35='' @ msg_type @ [SEP] @ ''49='' @ sender @ [SEP] @ ''56='' @ TARGET @ [SEP] @
   ''34='' @ str_nat seq @ [SEP] @ ''52='' @ ts @ [SEP] @ fields_text body
   = fields_text (message_fields ts msg_type seq body sender)"
  by (simp add: message_fields_def header_fields_def field_text_def TARGET_def)

lemma frame_prefix_eq:
  "''8=FIX.4.2'' @ [SEP] @ ''9='' @ str_nat (length (fields_text body)) @ [SEP] @ fields_text body
   = fields_text (frame_fields body)"
  by (simp add: frame_fields_def field_text_def)

lemma ascii_frame_fields:
  "list_all is_ascii (fields_text body) \<Longrightarrow> list_all is_ascii (fields_text (frame_fields body))"
  by (simp add: frame_fields_def field_text_def is_ascii_def)

lemma build_message_eq:
  "build_message ts msg_type seq body sender =
     (let kvs = message_fields ts msg_type seq body sender
      in if list_all is_ascii (fields_text kvs) then Inr (frame_text kvs) else Inl UnicodeEncodeError)"
proof -
  let ?kvs = "message_fields ts msg_type seq body sender"
  let ?raw = "fields_text (frame_fields ?kvs)"
  have body: "build_message ts msg_type seq body sender =
     res_bind (encode_ascii (fields_text ?kvs)) (\<lambda>b.
       let raw = ''8=FIX.4.2'' @ [SEP] @ ''9='' @ str_nat (length b) @ [SEP] @ fields_text ?kvs
       in res_bind (checksum raw) (\<lambda>ck. encode_ascii (raw @ ''10='' @ ck @ [SEP])))"
    unfolding build_message_def Let_def body_text_eq header_text_eq [symmetric] append_assoc by simp
  show ?thesis
  proof (cases "list_all is_ascii (fields_text ?kvs)")
    case True
    have ck: "checksum ?raw = Inr (fmt_03d (byte_sum ?raw))"
      using ascii_frame_fields [OF True] by (simp add: checksum_def byte_sum_def)
    have "list_all is_ascii (field_text (''10'', fmt_03d (byte_sum ?raw)))"
      by (rule field_text_ascii [OF checksum_field_ok])
    then have "encode_ascii (?raw @ ''10='' @ fmt_03d (byte_sum ?raw) @ [SEP]) = Inr (frame_text ?kvs)"
      using ascii_frame_fields [OF True] by (simp add: frame_text_eq field_text_def encode_ascii_Inr)
    then show ?thesis
      unfolding body encode_ascii_ok [OF True] res_bind_simps Let_def frame_prefix_eq ck
      using True by simp
  next
    case False
    then show ?thesis unfolding body by (simp add: encode_ascii_def Let_def)
  qed
qed

interpretation ui: fix_codec build_message parse_dict
  by unfold_locales (simp_all add: build_message_eq Let_def parse_dict_pairs)

section \<open>Taking messages off the stream\<close>

text \<open>
  \<open>trailer_whole m cs\<close>: none of the points at which the network cut the stream into the chunks
  \<open>cs\<close> lies inside the checksum field of the message \<open>m\<close>, after its \<open>10=\<close>.
\<close>

definition outside_trailer :: "bytes \<Rightarrow> nat \<Rightarrow> bool" where
  "outside_trailer m e =
     (case find_sub ''10='' m of None \<Rightarrow> True | Some n \<Rightarrow> e < n + 3 \<or> length m \<le> e)"

definition trailer_whole :: "bytes \<Rightarrow> bytes list \<Rightarrow> bool" where
  "trailer_whole m cs \<longleftrightarrow>
     list_all (\<lambda>k. outside_trailer m (length (concat (take k cs)))) [0..<Suc (length cs)]"

definition cuts_ok :: "bytes \<Rightarrow> nat \<Rightarrow> bytes list \<Rightarrow> bool" where
  "cuts_ok m off cs \<longleftrightarrow> (\<forall>k \<le> length cs. outside_trailer m (off + length (concat (take k cs))))"

lemma trailer_whole_cuts: "trailer_whole m cs \<longleftrightarrow> cuts_ok m 0 cs"
  by (auto simp: trailer_whole_def cuts_ok_def list_all_iff)

lemma cuts_ok_Cons:
  "cuts_ok m off (c # cs) \<longleftrightarrow> outside_trailer m off \<and> cuts_ok m (off + length c) cs"
proof -
  have "(\<forall>k \<le> Suc (length cs). P k) \<longleftrightarrow> P 0 \<and> (\<forall>k \<le> length cs. P (Suc k))" for P
    by (metis Suc_le_mono le0 not0_implies_Suc)
  from this [of "\<lambda>k. outside_trailer m (off + length (concat (take k (c # cs))))"]
  show ?thesis by (simp add: cuts_ok_def add.assoc)
qed

lemma cuts_ok_past: "length m \<le> off \<Longrightarrow> cuts_ok m off cs"
  by (auto simp: cuts_ok_def outside_trailer_def split: option.splits)

lemma recv_loop_complete:
  "framed m \<Longrightarrow> recv_loop timed (m @ rest) net = (Inr m, rest, net)"
proof -
  assume m: "framed m"
  then obtain n where "find_sub ''10='' (m @ rest) = Some n"
    and "index_from SEP (m @ rest) n = Some (length m - 1)" by (rule framed_cut)
  moreover have "length m - 1 + 1 = length m" using framed_not_Nil [OF m] by simp
  ultimately show ?thesis by (simp only: recv_loop_hit) simp
qed

lemma recv_loop_chunks:
  assumes "framed m" "buf @ concat cs = m @ rest" "[] \<notin> set cs"
  shows "if cuts_ok m (length buf) cs
         then \<exists>buf' cs'. recv_loop timed buf (map Chunk cs) = (Inr m, buf', map Chunk cs')
                \<and> buf' @ concat cs' = rest
         else fst (recv_loop timed buf (map Chunk cs)) = Inl ValueError"
  using assms(2,3)
proof (induction cs arbitrary: buf)
  case Nil
  then show ?case using assms(1) by (auto simp: recv_loop_complete cuts_ok_past intro!: exI [of _ "[]"])
next
  case (Cons c cs)
  obtain n where n: "find_sub ''10='' m = Some n" using assms(1) by (auto simp: framed_def split: option.splits)
  show ?case
  proof (cases "length m \<le> length buf")
    case True
    then obtain t where t: "buf = m @ t" "t @ concat (c # cs) = rest"
      using Cons.prems(1) by (auto simp: append_eq_append_conv2)
    then have "recv_loop timed buf (map Chunk (c # cs)) = (Inr m, t, map Chunk (c # cs))"
      using recv_loop_complete [OF assms(1)] by simp
    with t True show ?thesis by (auto simp: cuts_ok_past intro!: exI [of _ "c # cs"])
  next
    case False
    then obtain t where t: "m = buf @ t" "t \<noteq> []"
      using Cons.prems(1) by (auto simp: append_eq_append_conv2)
    then have b: "take (length buf) m = buf" by simp
    show ?thesis
    proof (cases "n + 3 \<le> length buf")
      case True
      have "find_sub ''10='' buf = Some n" using find_sub_take [OF n, of "length buf"] True b by simp
      moreover have "index_from SEP buf n = None"
        by (rule framed_incomplete [OF assms(1) t calculation])
      ultimately have "fst (recv_loop timed buf (map Chunk (c # cs))) = Inl ValueError"
        by (simp add: recv_loop_hit)
      moreover have "\<not> cuts_ok m (length buf) (c # cs)"
        using True False n by (simp add: cuts_ok_Cons outside_trailer_def)
      ultimately show ?thesis by simp
    next
      case small: False
      have "find_sub ''10='' buf = None" using find_sub_take [OF n, of "length buf"] small b by simp
      then have "recv_loop timed buf (map Chunk (c # cs)) = recv_loop timed (buf @ c) (map Chunk cs)"
        using Cons.prems(2) by (auto simp: recv_loop_wait)
      moreover have "cuts_ok m (length buf) (c # cs) = cuts_ok m (length (buf @ c)) cs"
        using small n by (simp add: cuts_ok_Cons outside_trailer_def)
      ultimately show ?thesis using Cons.IH [of "buf @ c"] Cons.prems by simp
    qed
  qed
qed

lemma recv_framed_chunk:
  assumes "framed m" "afs_buf s = []" "afs_reader s = Chunk m # net"
  shows "AsyncFixSession_recv timed s = (parse_fields m, s\<lparr>afs_reader := net\<rparr>)"
proof -
  have "find_sub ''10='' [] = None" by simp
  then show ?thesis
    using recv_loop_complete [OF assms(1), of timed "[]" net] assms framed_not_Nil [OF assms(1)]
    by (simp add: AsyncFixSession_recv_def recv_loop_wait del: find_sub.simps)
qed

lemma logon_drain_stream:
  assumes "list_all2 (\<lambda>m p. framed m \<and> parse_fields m = Inr p) ms ps" "afs_buf s = []"
    and "afs_reader s = map Chunk ms @ Expire # net"
  shows "logon_drain s =
           (Inr (), s\<lparr>afs_reader := net,
                      afs_order_statuses := afs_order_statuses s @ filter is_order_status ps\<rparr>)"
  using assms
proof (induction ms ps arbitrary: s rule: list_all2_induct)
  case Nil
  have "find_sub ''10='' [] = None" by simp
  with Nil show ?case
    by (subst logon_drain.simps) (simp add: AsyncFixSession_recv_def recv_loop_wait del: find_sub.simps)
next
  case (Cons m ms p ps)
  let ?s' = "s\<lparr>afs_reader := map Chunk ms @ Expire # net\<rparr>"
  let ?s = "if is_order_status p then ?s'\<lparr>afs_order_statuses := afs_order_statuses ?s' @ [p]\<rparr> else ?s'"
  have "AsyncFixSession_recv True s = (Inr p, ?s')"
    using Cons recv_framed_chunk [of m s "map Chunk ms @ Expire # net" True] by simp
  then have "logon_drain s = logon_drain ?s" by (subst logon_drain.simps) simp
  moreover have "logon_drain ?s = (Inr (), ?s\<lparr>afs_reader := net,
      afs_order_statuses := afs_order_statuses ?s @ filter is_order_status ps\<rparr>)"
    using Cons.prems by (intro Cons.IH) auto
  ultimately show ?case by simp
qed

interpretation ui_session: fix_sender build_message parse_dict AsyncFixSession_send
  afs_sender afs_seq afs_writer
  by unfold_locales (auto simp: AsyncFixSession_send_def split: sum.splits)

section \<open>Properties\<close>

text \<open>
  C27: whatever the fields, \<open>build_message\<close> either returns bytes that are a well-formed FIX 4.2
  frame (BodyLength counts the body, the checksum is the byte sum modulo 256 as three digits) or
  raises UnicodeEncodeError, and it raises exactly when some character of the message is not ASCII.
\<close>

theorem build_message_total:
  "case build_message ts msg_type seq body sender of
     Inr m \<Rightarrow> fix42_frame m \<and> list_all is_ascii (fields_text (message_fields ts msg_type seq body sender))
   | Inl e \<Rightarrow> e = UnicodeEncodeError
            \<and> \<not> list_all is_ascii (fields_text (message_fields ts msg_type seq body sender))"
  by (simp add: build_message_eq Let_def fix42_frame_text)

text \<open>
  C15: decoding an encoded message gives back the dictionary of its fields, in order: the framing
  fields, the header, the body as it was passed in, and the checksum.
\<close>

theorem parse_build_roundtrip:
  assumes "list_all field_ok (message_fields ts msg_type seq body sender)"
    and "distinct (map fst (frame_fields (message_fields ts msg_type seq body sender)))"
    and "''10'' \<notin> fst ` set body" and "msg_type \<noteq> ''W''"
  shows "\<exists>m ck. build_message ts msg_type seq body sender = Inr m \<and>
           parse_fields m = Inr \<lparr>fm_fields =
             frame_fields (message_fields ts msg_type seq body sender) @ [(''10'', ck)],
             fm_entries = None\<rparr>"
proof -
  let ?kvs = "message_fields ts msg_type seq body sender"
  let ?ck = "fmt_03d (byte_sum (fields_text (frame_fields ?kvs)))"
  have keys: "distinct (map fst (frame_fields ?kvs @ [(''10'', ?ck)]))"
    using assms by (auto simp: frame_fields_def message_fields_def header_fields_def)
  have dict: "parse_dict (frame_text ?kvs) = frame_fields ?kvs @ [(''10'', ?ck)]"
    using ui.parse_frame [OF assms(1)] dict_of_distinct_eq [OF keys] by simp
  have "map_of (frame_fields ?kvs @ [(''10'', ?ck)]) ''35'' = Some msg_type"
    by (simp add: frame_fields_def message_fields_def header_fields_def)
  with dict assms(4) show ?thesis
    by (simp add: ui.build_fields [OF assms(1)] parse_fields_def)
qed

text \<open>
  C10: the reading side. When the network delivers a framed message \<open>m\<close> and what follows it in
  any chunks, \<open>recv\<close> returns the decoded \<open>m\<close> and keeps exactly the bytes after it, provided no
  chunk ends inside the checksum field; if one does, \<open>recv\<close> raises ValueError, because
  \<open>bytes.index\<close> looks for the closing SOH before it has arrived.
\<close>

theorem AsyncFixSession_recv_chunks:
  assumes "framed m" "afs_buf s @ concat cs = m @ rest" "[] \<notin> set cs" "afs_buf s = []"
  shows "if trailer_whole m cs
         then \<exists>buf' cs'. AsyncFixSession_recv timed (s\<lparr>afs_reader := map Chunk cs\<rparr>)
                = (parse_fields m, s\<lparr>afs_buf := buf', afs_reader := map Chunk cs'\<rparr>)
                \<and> buf' @ concat cs' = rest
         else fst (AsyncFixSession_recv timed (s\<lparr>afs_reader := map Chunk cs\<rparr>)) = Inl ValueError"
proof (cases "trailer_whole m cs")
  case True
  then obtain buf' cs' where "recv_loop timed (afs_buf s) (map Chunk cs) = (Inr m, buf', map Chunk cs')"
    and "buf' @ concat cs' = rest"
    using recv_loop_chunks [OF assms(1,2,3), of timed] assms(4) by (auto simp: trailer_whole_cuts)
  with True show ?thesis by (auto simp: AsyncFixSession_recv_def)
next
  case False
  then have "fst (recv_loop timed (afs_buf s) (map Chunk cs)) = Inl ValueError"
    using recv_loop_chunks [OF assms(1,2,3), of timed] assms(4) by (simp add: trailer_whole_cuts)
  with False show ?thesis by (auto simp: AsyncFixSession_recv_def split: prod.splits)
qed

definition example_frame :: bytes where
  "example_frame = fields_text [(''8'', ''FIX.4.2''), (''9'', ''5''), (''35'', ''0''), (''10'', ''161'')]"

theorem AsyncFixSession_recv_chunks_witness:
  "fst (AsyncFixSession_recv False
      ((AsyncFixSession_init ''S1'')\<lparr>afs_reader := map Chunk [take 24 example_frame, drop 24 example_frame]\<rparr>))
     = Inl ValueError"
proof -
  have 1: "framed example_frame" by code_simp
  have 2: "afs_buf (AsyncFixSession_init ''S1'') @ concat [take 24 example_frame, drop 24 example_frame]
      = example_frame @ []" by code_simp
  have 3: "[] \<notin> set [take 24 example_frame, drop 24 example_frame]" by code_simp
  have 4: "afs_buf (AsyncFixSession_init ''S1'') = []" by code_simp
  have "\<not> trailer_whole example_frame [take 24 example_frame, drop 24 example_frame]" by code_simp
  then show ?thesis using AsyncFixSession_recv_chunks [OF 1 2 3 4, of False] by simp
qed

theorem parse_build_roundtrip_witness:
  "\<exists>m ck. build_message ''20260101-00:00:00'' ''0'' 7 [(''112'', ''PING'')] ''S1'' = Inr m \<and>
     parse_fields m = Inr \<lparr>fm_fields =
       frame_fields (message_fields ''20260101-00:00:00'' ''0'' 7 [(''112'', ''PING'')] ''S1'') @ [(''10'', ck)],
       fm_entries = None\<rparr>"
proof -
  have 1: "list_all field_ok (message_fields ''20260101-00:00:00'' ''0'' 7 [(''112'', ''PING'')] ''S1'')"
    by code_simp
  have 2: "distinct (map fst (frame_fields
      (message_fields ''20260101-00:00:00'' ''0'' 7 [(''112'', ''PING'')] ''S1'')))" by code_simp
  show ?thesis by (rule parse_build_roundtrip [OF 1 2]) auto
qed

text \<open>
  C28: from a fresh connection, whatever messages are sent and however many of them fail to
  encode, the messages on the wire are numbered 1, 2, 3, ... without a gap, and the session's
  counter is the next number.
\<close>

theorem AsyncFixSession_numbering:
  "numbered build_message sender
     (afs_seq (fold (\<lambda>(ts, mt, body) s. snd (AsyncFixSession_send ts mt body s)) reqs
        (AsyncFixSession_connect net (AsyncFixSession_init sender))))
     (afs_writer (fold (\<lambda>(ts, mt, body) s. snd (AsyncFixSession_send ts mt body s)) reqs
        (AsyncFixSession_connect net (AsyncFixSession_init sender))))"
proof -
  let ?s0 = "AsyncFixSession_connect net (AsyncFixSession_init sender)"
  have "afs_sender (fold (\<lambda>(ts, mt, body) s. snd (AsyncFixSession_send ts mt body s)) reqs s) = afs_sender s"
    for s by (induction reqs arbitrary: s) (auto simp: AsyncFixSession_send_def split: sum.splits)
  moreover have "numbered build_message (afs_sender ?s0) (afs_seq ?s0) (afs_writer ?s0)"
    using numbered_start
    by (simp add: AsyncFixSession_connect_def AsyncFixSession_init_def)
  ultimately show ?thesis
    using ui_session.send_many_numbered [OF _ refl, of ?s0 reqs]
    by (simp add: AsyncFixSession_connect_def AsyncFixSession_init_def)
qed

text \<open>
  C29: logon. When the exchange answers with a Logon and then the messages \<open>ps\<close> before 0.3
  seconds of silence, \<open>logon\<close> returns that answer, takes every message off the stream, and
  \<open>order_statuses\<close> holds exactly the execution reports of type I, 2 or 4 among them, in order;
  any other first answer is a RuntimeError.
\<close>

theorem AsyncFixSession_logon_statuses:
  assumes "list_all2 (\<lambda>m p. framed m \<and> parse_fields m = Inr p) ms ps"
    and "framed a" "parse_fields a = Inr resp" "afs_buf s = []"
    and "build_message ts ''A'' (afs_seq s) [(''98'', ''0''), (''108'', ''30'')] (afs_sender s) = Inr out"
  shows "AsyncFixSession_logon ts (s\<lparr>afs_reader := Chunk a # map Chunk ms @ Expire # net\<rparr>) =
           (if msg_tag resp ''35'' = Some ''A''
            then (Inr resp,
                  s\<lparr>afs_seq := afs_seq s + 1, afs_writer := afs_writer s @ [out], afs_reader := net,
                    afs_order_statuses := filter is_order_status ps\<rparr>)
            else (Inl (RuntimeError ''Expected Logon response''),
                  s\<lparr>afs_seq := afs_seq s + 1, afs_writer := afs_writer s @ [out],
                    afs_reader := map Chunk ms @ Expire # net, afs_order_statuses := []\<rparr>))"
proof -
  let ?s0 = "s\<lparr>afs_reader := Chunk a # map Chunk ms @ Expire # net, afs_order_statuses := []\<rparr>"
  let ?s1 = "?s0\<lparr>afs_seq := afs_seq s + 1, afs_writer := afs_writer s @ [out]\<rparr>"
  let ?s2 = "?s1\<lparr>afs_reader := map Chunk ms @ Expire # net\<rparr>"
  have "AsyncFixSession_send ts ''A'' [(''98'', ''0''), (''108'', ''30'')] ?s0 = (Inr (), ?s1)"
    using assms(5) by (simp add: AsyncFixSession_send_def)
  moreover have "AsyncFixSession_recv False ?s1 = (Inr resp, ?s2)"
    using recv_framed_chunk [OF assms(2), of ?s1 "map Chunk ms @ Expire # net" False] assms(3,4) by simp
  moreover have "logon_drain ?s2
      = (Inr (), ?s2\<lparr>afs_reader := net, afs_order_statuses := filter is_order_status ps\<rparr>)"
    using logon_drain_stream [OF assms(1), of ?s2 net] assms(4) by simp
  ultimately show ?thesis by (simp add: AsyncFixSession_logon_def)
qed

definition example_exec :: "string \<Rightarrow> bytes" where
  "example_exec exec_type = frame_text [(''35'', ''8''), (''150'', exec_type)]"

theorem AsyncFixSession_logon_statuses_witness:
  "let r = AsyncFixSession_logon ''20260101-00:00:00''
             ((AsyncFixSession_init ''S1'')\<lparr>afs_reader := Chunk (frame_text [(''35'', ''A'')]) #
                map Chunk [example_exec ''I'', example_exec ''0''] @ Expire # []\<rparr>)
   in fst r = Inr (projr (parse_fields (frame_text [(''35'', ''A'')])))
    \<and> afs_order_statuses (snd r) = [projr (parse_fields (example_exec ''I''))]"
proof -
  let ?ps = "map (\<lambda>m. projr (parse_fields m)) [example_exec ''I'', example_exec ''0'']"
  let ?a = "frame_text [(''35'', ''A'')]"
  have 1: "list_all2 (\<lambda>m p. framed m \<and> parse_fields m = Inr p)
      [example_exec ''I'', example_exec ''0''] ?ps" by code_simp
  have 2: "framed ?a" by code_simp
  have 3: "parse_fields ?a = Inr (projr (parse_fields ?a))" by code_simp
  have 4: "afs_buf (AsyncFixSession_init ''S1'') = []" by code_simp
  have ok: "list_all field_ok (message_fields ''20260101-00:00:00'' ''A''
      (afs_seq (AsyncFixSession_init ''S1'')) [(''98'', ''0''), (''108'', ''30'')]
      (afs_sender (AsyncFixSession_init ''S1'')))" by code_simp
  note 5 = ui.build_fields [OF ok]
  have 6: "msg_tag (projr (parse_fields ?a)) ''35'' = Some ''A''" by code_simp
  have 7: "filter is_order_status ?ps = [projr (parse_fields (example_exec ''I''))]" by code_simp
  show ?thesis
    unfolding AsyncFixSession_logon_statuses [OF 1 2 3 4 5, of "[]"] using 6 7 by (simp add: Let_def)
qed

end
