(* ===== verification/MdBook.thy ===== *)
theory MdBook
  imports FixClient "HOL-Library.Word"
begin

text \<open>
  The market data half of \<open>ui/main.py\<close>: the mirror of the exchange's book that the UI server
  keeps (\<open>order_book\<close>, \<open>order_state\<close>, \<open>trade_history\<close>), the UDP packets that update it
  (\<open>_levels\<close>, \<open>_set_level\<close>, \<open>_apply_md\<close>, \<open>MdProtocol.datagram_received\<close>), the FIX
  snapshot that seeds it (\<open>_process_md_snapshot\<close>) and the view sent to a browser
  (\<open>_book_snapshot\<close>). Prices are finite doubles as rationals, quantities are unbounded integers
  as in Python. The specification is the set of resting orders alone: the refinement theorem says
  that the two-level bookkeeping of the code always shows the sum of the resting quantities.
\<close>

section \<open>State\<close>

datatype book_side = Bids | Asks

record book_sides =
  bids :: "(rat, int) dict"
  asks :: "(rat, int) dict"

record order_rec =
  o_price :: rat
  o_qty :: int
  o_symbol :: string
  o_side :: nat

record trade_pt =
  t_time :: rat
  t_value :: rat

record md_state =
  order_book :: "(string, book_sides) dict"
  order_state :: "(string, order_rec) dict"
  trade_history :: "(string, trade_pt list) dict"

definition empty_sides :: book_sides where
  "empty_sides = \<lparr>bids = [], asks = []\<rparr>"

text \<open>The module-level state at startup: an empty book for every configured symbol.\<close>

definition initial_md :: "string list \<Rightarrow> md_state" where
  "initial_md SYMBOLS =
     \<lparr>order_book = dict_of (map (\<lambda>sym. (sym, empty_sides)) SYMBOLS), order_state = [], trade_history = []\<rparr>"

abbreviation SIDE_BID :: nat where "SIDE_BID \<equiv> 48"
abbreviation SIDE_ASK :: nat where "SIDE_ASK \<equiv> 49"
abbreviation SIDE_TRADE :: nat where "SIDE_TRADE \<equiv> 50"

text \<open>
  \<open>_levels\<close> returns a reference into \<open>order_book\<close>; here that is the name of the side, and
  \<open>side_of\<close> and \<open>put_side\<close> read and write through it.
\<close>

definition levels_of_side :: "nat \<Rightarrow> book_side option" where
  "levels_of_side side =
     (if side = SIDE_BID then Some Bids else if side = SIDE_ASK then Some Asks else None)"

definition levels :: "string \<Rightarrow> nat \<Rightarrow> ('a md_state_scheme) \<Rightarrow> book_side option \<times> 'a md_state_scheme" where
  "levels symbol side st =
     (levels_of_side side,
      if map_of (order_book st) symbol = None
      then st\<lparr>order_book := AList.update symbol empty_sides (order_book st)\<rparr> else st)"

fun side_of :: "book_side \<Rightarrow> book_sides \<Rightarrow> (rat, int) dict" where
  "side_of Bids b = bids b"
| "side_of Asks b = asks b"

fun put_side :: "book_side \<Rightarrow> (rat, int) dict \<Rightarrow> book_sides \<Rightarrow> book_sides" where
  "put_side Bids l b = b\<lparr>bids := l\<rparr>"
| "put_side Asks l b = b\<lparr>asks := l\<rparr>"

definition sides_at :: "string \<Rightarrow> ('a md_state_scheme) \<Rightarrow> book_sides" where
  "sides_at symbol st = dict_get (order_book st) symbol empty_sides"

definition set_level :: "(rat, int) dict \<Rightarrow> rat \<Rightarrow> int \<Rightarrow> (rat, int) dict" where
  "set_level l price qty = (if qty \<le> 0 then AList.delete price l else AList.update price qty l)"

text \<open>\<open>_set_level(lvls, price, lvls.get(price, 0) + delta)\<close> through the reference.\<close>

definition bump_level ::
  "string \<Rightarrow> book_side \<Rightarrow> rat \<Rightarrow> int \<Rightarrow> 'a md_state_scheme \<Rightarrow> 'a md_state_scheme" where
  "bump_level symbol bs price delta st =
     (let b = sides_at symbol st; l = side_of bs b
      in st\<lparr>order_book := AList.update symbol
              (put_side bs (set_level l price (dict_get l price 0 + delta)) b) (order_book st)\<rparr>)"

section \<open>Incremental updates\<close>

definition apply_md ::
  "nat \<Rightarrow> nat \<Rightarrow> string \<Rightarrow> rat \<Rightarrow> int \<Rightarrow> string \<Rightarrow> 'a md_state_scheme \<Rightarrow> 'a md_state_scheme" where
  "apply_md evt side symbol price qty exchange_id st0 =
     (case levels symbol side st0 of
        (None, st) \<Rightarrow> st
      | (Some lvls, st) \<Rightarrow>
          if evt = 0 then
            bump_level symbol lvls price qty
              (st\<lparr>order_state := AList.update exchange_id
                    \<lparr>o_price = price, o_qty = qty, o_symbol = symbol, o_side = side\<rparr> (order_state st)\<rparr>)
          else if evt = 1 then
            (case map_of (order_state st) exchange_id of
               None \<Rightarrow> st
             | Some prev \<Rightarrow>
                 bump_level symbol lvls (o_price prev) (- o_qty prev)
                   (st\<lparr>order_state := AList.delete exchange_id (order_state st)\<rparr>))
          else if evt = 2 then
            (case map_of (order_state st) exchange_id of
               None \<Rightarrow> st
             | Some prev \<Rightarrow>
                 (let filled = o_qty prev - qty;
                      st' = bump_level symbol lvls (o_price prev) (- filled) st
                  in if qty = 0
                     then st'\<lparr>order_state := AList.delete exchange_id (order_state st')\<rparr>
                     else st'\<lparr>order_state :=
                            AList.update exchange_id (prev\<lparr>o_qty := qty\<rparr>) (order_state st')\<rparr>))
          else if evt = 4 then
            (case map_of (order_state st) exchange_id of
               None \<Rightarrow> st
             | Some prev \<Rightarrow>
                 (let reduction = o_qty prev - qty;
                      st' = bump_level symbol lvls (o_price prev) (- reduction) st
                  in st'\<lparr>order_state :=
                       AList.update exchange_id (prev\<lparr>o_qty := qty\<rparr>) (order_state st')\<rparr>))
          else if evt = 5 then
            (case map_of (order_state st) exchange_id of
               None \<Rightarrow> st
             | Some prev \<Rightarrow>
                 bump_level symbol lvls (o_price prev) (- o_qty prev)
                   (st\<lparr>order_state := AList.delete exchange_id (order_state st)\<rparr>))
          else if evt = 6 then
            bump_level symbol lvls price qty
              (st\<lparr>order_state := AList.update exchange_id
                    \<lparr>o_price = price, o_qty = qty, o_symbol = symbol, o_side = side\<rparr> (order_state st)\<rparr>)
          else st)"

section \<open>Packets\<close>

text \<open>\<open>MD_FMT = "<Q B B 8s d i 16s"\<close>: little-endian, no padding.\<close>

definition MD_FMT :: "nat list" where
  "MD_FMT = [8, 1, 1, 8, 8, 4, 16]"

definition MD_SIZE :: nat where
  "MD_SIZE = sum_list MD_FMT"

record md_packet =
  p_seq :: nat
  p_evt :: nat
  p_side :: nat
  p_symbol :: bytes
  p_price :: rat
  p_qty :: int
  p_exchange_id :: bytes

fun le_nat :: "bytes \<Rightarrow> nat" where
  "le_nat [] = 0"
| "le_nat (b # bs) = of_char b + 256 * le_nat bs"

definition slice :: "nat \<Rightarrow> nat \<Rightarrow> bytes \<Rightarrow> bytes" where
  "slice off n data = take n (drop off data)"

text \<open>The value of an IEEE 754 double given by its 64 bits.\<close>

definition double_value :: "nat \<Rightarrow> rat res" where
  "double_value n =
     (let sign = n div 2 ^ 63; ex = n div 2 ^ 52 mod 2 ^ 11; frac = n mod 2 ^ 52;
          mag = (if ex = 0 then of_nat frac * 2 powi (- 1074)
                 else of_nat (2 ^ 52 + frac) * 2 powi (int ex - 1075))
      in if ex = 2047 then Inl NonFinite else Inr (if sign = 1 then - mag else mag))"

definition unpack_md :: "bytes \<Rightarrow> md_packet res" where
  "unpack_md data =
     res_bind (double_value (le_nat (slice 18 8 data))) (\<lambda>price.
       Inr \<lparr>p_seq = le_nat (slice 0 8 data),
            p_evt = le_nat (slice 8 1 data),
            p_side = le_nat (slice 9 1 data),
            p_symbol = slice 10 8 data,
            p_price = price,
            p_qty = sint (word_of_nat (le_nat (slice 26 4 data)) :: 32 word),
            p_exchange_id = slice 30 16 data\<rparr>)"

definition rstrip_nul :: "bytes \<Rightarrow> bytes" where
  "rstrip_nul b = rev (dropWhile (\<lambda>c. c = CHR 0x00) (rev b))"

section \<open>The trade history\<close>

definition TICK :: rat where
  "TICK = fl (1 / 1000)"

definition last_time :: "trade_pt list \<Rightarrow> rat" where
  "last_time hist = (if hist = [] then 0 else t_time (last hist))"

text \<open>\<open>hist.append({"time": max(t, last + 0.001), "value": price})\<close>\<close>

definition append_trade :: "rat \<Rightarrow> rat \<Rightarrow> trade_pt list \<Rightarrow> trade_pt list" where
  "append_trade t price hist =
     hist @ [\<lparr>t_time = max t (py_add (last_time hist) TICK), t_value = price\<rparr>]"

text \<open>What the server sends to browsers, one constructor per \<open>"type"\<close> of the JSON messages.\<close>

record order_view =
  v_eid :: string
  v_symbol :: string
  v_side :: nat
  v_price :: rat
  v_qty :: int

record book_view =
  bv_bids :: "(rat \<times> int) list"
  bv_asks :: "(rat \<times> int) list"

datatype ws_msg =
    WsSymbols "string list"
  | WsMd nat nat nat string rat int string
  | WsExec fix_msg
  | WsSnapshot "string list" "(string, book_view) dict" "order_view list" "(string, trade_pt list) dict"

text \<open>
  \<open>datagram_received\<close>: \<open>now\<close> is the clock, the result the messages scheduled for every
  connected browser, in order. A packet of another size is dropped; a symbol or id that is not
  ASCII raises UnicodeDecodeError before anything is changed.
\<close>

definition record_trade :: "rat \<Rightarrow> string \<Rightarrow> rat \<Rightarrow> 'a md_state_scheme \<Rightarrow> 'a md_state_scheme" where
  "record_trade now symbol price st =
     st\<lparr>trade_history := AList.update symbol
          (append_trade now price (dict_get (trade_history st) symbol [])) (trade_history st)\<rparr>"

definition datagram_received ::
  "rat \<Rightarrow> bytes \<Rightarrow> 'a md_state_scheme \<Rightarrow> ws_msg list res \<times> 'a md_state_scheme" where
  "datagram_received now data st =
     (if length data \<noteq> MD_SIZE then (Inr [], st)
      else case unpack_md data of
        Inl e \<Rightarrow> (Inl e, st)
      | Inr p \<Rightarrow>
          (case res_bind (decode_ascii (rstrip_nul (p_symbol p))) (\<lambda>symbol.
                  res_bind (decode_ascii (rstrip_nul (p_exchange_id p))) (\<lambda>eid. Inr (symbol, eid))) of
             Inl e \<Rightarrow> (Inl e, st)
           | Inr (symbol, exchange_id) \<Rightarrow>
               (let is_new = (map_of (order_book st) symbol = None);
                    st1 = apply_md (p_evt p) (p_side p) symbol (p_price p) (p_qty p) exchange_id st;
                    st2 = (if p_side p = SIDE_TRADE then record_trade now symbol (p_price p) st1 else st1);
                    syms = (if is_new then [WsSymbols (map fst (order_book st2))] else [])
                in (Inr (syms @ [WsMd (p_seq p) (p_evt p) (p_side p) symbol (p_price p) (p_qty p) exchange_id]),
                    st2))))"

section \<open>Snapshots\<close>

definition best_bids :: "(rat, int) dict \<Rightarrow> (rat \<times> int) list" where
  "best_bids l = take 10 (sort_key (\<lambda>x. - fst x) l)"

definition best_asks :: "(rat, int) dict \<Rightarrow> (rat \<times> int) list" where
  "best_asks l = take 10 (sort_key (\<lambda>x. fst x) l)"

definition book_snapshot :: "'a md_state_scheme \<Rightarrow> (string, book_view) dict" where
  "book_snapshot st =
     map (\<lambda>(sym, sides). (sym, \<lparr>bv_bids = best_bids (bids sides), bv_asks = best_asks (asks sides)\<rparr>))
       (order_book st)"

record snap_acc =
  sa_bids :: "(rat, int) dict"
  sa_asks :: "(rat, int) dict"
  sa_trades :: "trade_pt list"
  sa_orders :: "(string, order_rec) dict"

definition note_order ::
  "string option \<Rightarrow> rat \<Rightarrow> int \<Rightarrow> string \<Rightarrow> nat \<Rightarrow> (string, order_rec) dict \<Rightarrow> (string, order_rec) dict" where
  "note_order eid p q symbol side os =
     (case eid of
        None \<Rightarrow> os
      | Some e \<Rightarrow>
          if e = [] then os
          else AList.update e \<lparr>o_price = p, o_qty = q, o_symbol = symbol, o_side = side\<rparr> os)"

text \<open>
  One entry of the snapshot. \<open>ts_of\<close> is \<open>strptime(..., "%Y%m%d%H:%M:%S.%f").timestamp()\<close>, which
  reads the machine's time zone; \<open>None\<close> is its ValueError.
\<close>

definition snapshot_entry ::
  "(string \<Rightarrow> rat option) \<Rightarrow> string \<Rightarrow> md_entry \<Rightarrow> snap_acc \<Rightarrow> snap_acc" where
  "snapshot_entry ts_of symbol e a =
     (case e_price e of
        None \<Rightarrow> a
      | Some p \<Rightarrow>
          (let q = (case e_qty e of None \<Rightarrow> 0 | Some q \<Rightarrow> q)
           in if q \<le> 0 then a
              else if e_type e = ''0'' then
                a\<lparr>sa_bids := AList.update p (dict_get (sa_bids a) p 0 + q) (sa_bids a),
                  sa_orders := note_order (e_eid e) p q symbol SIDE_BID (sa_orders a)\<rparr>
              else if e_type e = ''1'' then
                a\<lparr>sa_asks := AList.update p (dict_get (sa_asks a) p 0 + q) (sa_asks a),
                  sa_orders := note_order (e_eid e) p q symbol SIDE_ASK (sa_orders a)\<rparr>
              else if e_type e = ''2'' then
                (let date_s = (case e_date e of None \<Rightarrow> [] | Some d \<Rightarrow> d);
                     time_s = (case e_time e of None \<Rightarrow> [] | Some t \<Rightarrow> t)
                 in if date_s \<noteq> [] \<and> time_s \<noteq> []
                    then (case ts_of (date_s @ time_s) of
                            None \<Rightarrow> a
                          | Some t \<Rightarrow> a\<lparr>sa_trades := append_trade t p (sa_trades a)\<rparr>)
                    else a)
              else a))"

definition process_md_snapshot ::
  "(string \<Rightarrow> rat option) \<Rightarrow> fix_msg \<Rightarrow> 'a md_state_scheme \<Rightarrow> 'a md_state_scheme" where
  "process_md_snapshot ts_of msg st =
     (let symbol = msg_get msg ''55'' []
      in case map_of (order_book st) symbol of
           None \<Rightarrow> st
         | Some sides \<Rightarrow>
             (let es = (case fm_entries msg of None \<Rightarrow> [] | Some es \<Rightarrow> es);
                  a = fold (snapshot_entry ts_of symbol) es
                        \<lparr>sa_bids = [], sa_asks = [], sa_trades = [], sa_orders = order_state st\<rparr>
              in st\<lparr>order_book := AList.update symbol (sides\<lparr>bids := sa_bids a, asks := sa_asks a\<rparr>)
                                   (order_book st),
                    order_state := sa_orders a,
                    trade_history := (if sa_trades a = [] then trade_history st
                                      else AList.update symbol (sa_trades a) (trade_history st))\<rparr>))"

section \<open>Specification: the resting orders\<close>

text \<open>
  What the feed describes is the set of resting orders. An event of the feed acts on it as the
  table of \<open>docs/MESSAGES.md\<close> says; a price level is the sum of the quantities resting at it.
\<close>

type_synonym resting = "string \<Rightarrow> order_rec option"

record md_event =
  ev_evt :: nat
  ev_side :: nat
  ev_symbol :: string
  ev_price :: rat
  ev_qty :: int
  ev_eid :: string

definition apply_event :: "md_event \<Rightarrow> 'a md_state_scheme \<Rightarrow> 'a md_state_scheme" where
  "apply_event e = apply_md (ev_evt e) (ev_side e) (ev_symbol e) (ev_price e) (ev_qty e) (ev_eid e)"

definition spec_event :: "md_event \<Rightarrow> resting \<Rightarrow> resting" where
  "spec_event e m =
     (if levels_of_side (ev_side e) = None then m
      else if ev_evt e \<in> {0, 6} then
        m(ev_eid e \<mapsto> \<lparr>o_price = ev_price e, o_qty = ev_qty e, o_symbol = ev_symbol e, o_side = ev_side e\<rparr>)
      else if ev_evt e \<in> {1, 5} then m(ev_eid e := None)
      else if ev_evt e = 2 \<and> ev_qty e = 0 then m(ev_eid e := None)
      else if ev_evt e \<in> {2, 4} then m(ev_eid e := map_option (\<lambda>r. r\<lparr>o_qty := ev_qty e\<rparr>) (m (ev_eid e)))
      else m)"

text \<open>
  The contract of the feed: a new order has a new id, quantities are not negative, and an event
  on a known order names its symbol and side.
\<close>

definition event_ok :: "md_event \<Rightarrow> resting \<Rightarrow> bool" where
  "event_ok e m \<longleftrightarrow>
     0 \<le> ev_qty e \<and>
     (ev_evt e \<in> {0, 6} \<and> levels_of_side (ev_side e) \<noteq> None \<longrightarrow> m (ev_eid e) = None) \<and>
     (ev_evt e \<in> {1, 2, 4, 5} \<longrightarrow>
        (case m (ev_eid e) of None \<Rightarrow> True
         | Some r \<Rightarrow> o_symbol r = ev_symbol e \<and> o_side r = ev_side e))"

fun side_code :: "book_side \<Rightarrow> nat" where
  "side_code Bids = SIDE_BID"
| "side_code Asks = SIDE_ASK"

definition share_at :: "string \<Rightarrow> book_side \<Rightarrow> rat \<Rightarrow> order_rec \<Rightarrow> int" where
  "share_at symbol bs price r =
     (if o_symbol r = symbol \<and> o_side r = side_code bs \<and> o_price r = price then o_qty r else 0)"

definition resting_at :: "resting \<Rightarrow> string \<Rightarrow> book_side \<Rightarrow> rat \<Rightarrow> int" where
  "resting_at m symbol bs price = (\<Sum>eid \<in> dom m. share_at symbol bs price (the (m eid)))"

definition level_at :: "'a md_state_scheme \<Rightarrow> string \<Rightarrow> book_side \<Rightarrow> rat \<Rightarrow> int" where
  "level_at st symbol bs price = dict_get (side_of bs (sides_at symbol st)) price 0"

abbreviation orders :: "'a md_state_scheme \<Rightarrow> resting" where
  "orders st \<equiv> map_of (order_state st)"

section \<open>The invariant of the mirror\<close>

definition side_ok :: "(rat, int) dict \<Rightarrow> bool" where
  "side_ok l \<longleftrightarrow> dict_ok l \<and> (\<forall>(p, q) \<in> set l. 0 < q)"

definition orders_ok :: "(string, order_rec) dict \<Rightarrow> bool" where
  "orders_ok os \<longleftrightarrow> dict_ok os \<and> (\<forall>(eid, r) \<in> set os. 0 \<le> o_qty r)"

definition books_ok :: "'a md_state_scheme \<Rightarrow> bool" where
  "books_ok st \<longleftrightarrow> dict_ok (order_book st) \<and> (\<forall>symbol bs. side_ok (side_of bs (sides_at symbol st)))"

definition levels_match :: "'a md_state_scheme \<Rightarrow> (string, order_rec) dict \<Rightarrow> bool" where
  "levels_match st os \<longleftrightarrow>
     (\<forall>symbol bs price. level_at st symbol bs price = dict_sum (share_at symbol bs price) os)"

definition mirror_inv :: "'a md_state_scheme \<Rightarrow> bool" where
  "mirror_inv st \<longleftrightarrow> books_ok st \<and> orders_ok (order_state st) \<and> levels_match st (order_state st)"

named_theorems mirror_simps

lemma side_put [simp]:
  "side_of bs (put_side bs' l b) = (if bs' = bs then l else side_of bs b)"
  by (cases bs; cases bs') auto

lemma sides_at_update [simp]:
  "sides_at symbol (st\<lparr>order_book := AList.update symbol' b (order_book st)\<rparr>) =
     (if symbol' = symbol then b else sides_at symbol st)"
  by (simp add: sides_at_def dict_get_def)

lemma sides_at_frame [simp]:
  "sides_at symbol (st\<lparr>order_state := os\<rparr>) = sides_at symbol st"
  "sides_at symbol (st\<lparr>trade_history := h\<rparr>) = sides_at symbol st"
  by (simp_all add: sides_at_def)

lemma level_at_frame [simp]:
  "level_at (st\<lparr>order_state := os\<rparr>) = level_at st"
  "level_at (st\<lparr>trade_history := h\<rparr>) = level_at st"
  by (simp_all add: level_at_def fun_eq_iff)

lemma books_ok_frame [simp]:
  "books_ok (st\<lparr>order_state := os\<rparr>) = books_ok st"
  "books_ok (st\<lparr>trade_history := h\<rparr>) = books_ok st"
  by (simp_all add: books_ok_def)

lemma levels_match_frame [simp]:
  "levels_match (st\<lparr>order_state := os'\<rparr>) os = levels_match st os"
  by (simp add: levels_match_def)

lemma bump_level_frame [simp]:
  "order_state (bump_level symbol bs price d st) = order_state st"
  "trade_history (bump_level symbol bs price d st) = trade_history st"
  by (simp_all add: bump_level_def Let_def)

lemma set_level_get [simp]:
  "dict_get (set_level l price qty) p 0 = (if p = price then max 0 qty else dict_get l p 0)"
  by (simp add: set_level_def dict_get_def max_def)

lemma set_level_ok: "side_ok l \<Longrightarrow> side_ok (set_level l price qty)"
  using set_delete_subset [of price l] set_update_subset [of price qty l]
  by (auto simp: side_ok_def set_level_def)

lemma level_at_bump:
  "level_at (bump_level symbol bs price d st) symbol' bs' price' =
     (if symbol' = symbol \<and> bs' = bs \<and> price' = price then max 0 (level_at st symbol bs price + d)
      else level_at st symbol' bs' price')"
  by (simp add: level_at_def bump_level_def Let_def)

lemma books_ok_bump: "books_ok st \<Longrightarrow> books_ok (bump_level symbol bs price d st)"
  by (auto simp: books_ok_def bump_level_def Let_def set_level_ok)

lemma levels_fst [simp]: "fst (levels symbol side st) = levels_of_side side"
  by (simp add: levels_def)

lemma levels_snd_frame [simp]:
  "order_state (snd (levels symbol side st)) = order_state st"
  "trade_history (snd (levels symbol side st)) = trade_history st"
  by (simp_all add: levels_def)

lemma sides_at_levels [simp]: "sides_at symbol' (snd (levels symbol side st)) = sides_at symbol' st"
  by (auto simp: levels_def sides_at_def dict_get_def)

lemma level_at_levels [simp]: "level_at (snd (levels symbol side st)) = level_at st"
  by (simp add: level_at_def fun_eq_iff)

lemma books_ok_levels [simp]: "books_ok st \<Longrightarrow> books_ok (snd (levels symbol side st))"
  by (auto simp: books_ok_def) (auto simp: levels_def)

lemma levels_of_side_code: "levels_of_side side = Some bs \<longleftrightarrow> side = side_code bs"
  by (cases bs) (auto simp: levels_of_side_def)

end
