(* ===== verification/MdFeed.thy ===== *)
theory MdFeed
  imports MdMirror
begin

text \<open>
  The market data feed on the wire: how the exchange packs an event (the layout that
  \<open>MD_FMT = "<Q B B 8s d i 16s"\<close> of \<open>ui/main.py\<close> names), that \<open>datagram_received\<close> reads
  back exactly what was packed, the mirror theorem for a stream of datagrams, and the trade
  history they build.
\<close>

section \<open>Packing\<close>

fun le_bytes :: "nat \<Rightarrow> nat \<Rightarrow> bytes" where
  "le_bytes 0 n = []"
| "le_bytes (Suc k) n = char_of n # le_bytes k (n div 256)"

definition double_bits :: "rat \<Rightarrow> nat" where
  "double_bits r =
     (let u = fexp r; m = nat (rne (\<bar>r\<bar> / 2 powi u)); s = (if r < 0 then 1 else 0)
      in if r = 0 then 0
         else s * 2 ^ 63 + (if m < 2 ^ 52 then m else nat (u + 1075) * 2 ^ 52 + (m - 2 ^ 52)))"

definition pad_nul :: "nat \<Rightarrow> bytes \<Rightarrow> bytes" where
  "pad_nul k b = b @ replicate (k - length b) (CHR 0x00)"

definition pack_md :: "nat \<Rightarrow> md_event \<Rightarrow> bytes" where
  "pack_md seqno e =
     le_bytes 8 seqno @ le_bytes 1 (ev_evt e) @ le_bytes 1 (ev_side e) @ pad_nul 8 (ev_symbol e) @
     le_bytes 8 (double_bits (ev_price e)) @ le_bytes 4 (nat (ev_qty e mod 2 ^ 32)) @
     pad_nul 16 (ev_eid e)"

text \<open>What fits the layout: the text is ASCII, no longer than its field and without NUL.\<close>

definition wire_text :: "nat \<Rightarrow> string \<Rightarrow> bool" where
  "wire_text k s \<longleftrightarrow> length s \<le> k \<and> list_all is_ascii s \<and> CHR 0x00 \<notin> set s"

definition wire_ok :: "nat \<Rightarrow> md_event \<Rightarrow> bool" where
  "wire_ok seqno e \<longleftrightarrow>
     seqno < 2 ^ 64 \<and> ev_evt e < 256 \<and> ev_side e < 256 \<and> wire_text 8 (ev_symbol e) \<and>
     fl (ev_price e) = ev_price e \<and> \<bar>ev_price e\<bar> < 2 ^ 1024 \<and>
     - (2 ^ 31) \<le> ev_qty e \<and> ev_qty e < 2 ^ 31 \<and> wire_text 16 (ev_eid e)"

lemma length_le_bytes [simp]: "length (le_bytes k n) = k"
  by (induction k arbitrary: n) auto

lemma le_nat_bytes: "n < 256 ^ k \<Longrightarrow> le_nat (le_bytes k n) = n"
proof (induction k arbitrary: n)
  case (Suc k)
  then have "n div 256 < 256 ^ k" by (simp add: less_mult_imp_div_less mult.commute)
  with Suc show ?case by (simp add: of_char_of)
qed simp

lemma length_pad_nul [simp]: "length b \<le> k \<Longrightarrow> length (pad_nul k b) = k"
  by (simp add: pad_nul_def)

lemma rstrip_pad_nul: "CHR 0x00 \<notin> set b \<Longrightarrow> rstrip_nul (pad_nul k b) = b"
proof -
  assume nul: "CHR 0x00 \<notin> set b"
  then have "b = [] \<or> last b \<noteq> CHR 0x00" by (metis last_in_set)
  then have "dropWhile (\<lambda>c. c = CHR 0x00) (replicate n (CHR 0x00) @ rev b) = rev b" for n
    by (induction n) (auto simp: dropWhile_eq_self_iff hd_rev)
  then show ?thesis by (simp add: rstrip_nul_def pad_nul_def)
qed

lemma double_value_fields:
  fixes s ex frac :: nat
  assumes "s < 2" "ex < 2047" "frac < 2 ^ 52"
  shows "double_value (s * 2 ^ 63 + (ex * 2 ^ 52 + frac)) =
    Inr ((if s = 1 then - 1 else 1) *
         (if ex = 0 then of_nat frac * 2 powi (- 1074)
          else of_nat (2 ^ 52 + frac) * 2 powi (int ex - 1075)))"
proof -
  let ?n = "s * 2 ^ 63 + (ex * 2 ^ 52 + frac)"
  have n: "?n = frac + (s * 2 ^ 11 + ex) * 2 ^ 52" by simp
  have d: "?n div 2 ^ 52 = s * 2 ^ 11 + ex" "?n mod 2 ^ 52 = frac"
    using assms(3) unfolding n by (simp_all only: div_mult_self1 mod_mult_self1) simp_all
  have "?n div 2 ^ 63 = ?n div 2 ^ 52 div 2 ^ 11" by (simp add: div_mult2_eq [symmetric])
  also have "\<dots> = s" using assms(2) unfolding d(1) by simp
  finally have s: "?n div 2 ^ 63 = s" .
  have ex: "?n div 2 ^ 52 mod 2 ^ 11 = ex" using assms(2) unfolding d(1) by simp
  show ?thesis unfolding double_value_def Let_def s ex d(2) using assms(2) by simp
qed

lemma double_mantissa:
  assumes "is_double r" "r \<noteq> 0" "\<bar>r\<bar> < 2 ^ 1024"
  defines "m \<equiv> nat (rne (\<bar>r\<bar> / 2 powi fexp r))"
  shows "\<bar>r\<bar> = of_nat m * 2 powi fexp r" "m < 2 ^ 53" "2 ^ 52 \<le> m \<or> fexp r = - 1074" "fexp r \<le> 971"
proof -
  have pos: "0 < \<bar>r\<bar>" using assms(2) by simp
  obtain k e where "r = of_int k * 2 powi e" "\<bar>k\<bar> < 2 ^ 53" "- 1074 \<le> e"
    using assms(1) by (auto simp: is_double_def)
  then have "\<bar>r\<bar> = of_int \<bar>k\<bar> * 2 powi e" "\<bar>k\<bar> \<le> 2 ^ 53" by (simp_all add: abs_mult)
  then have "is_double \<bar>r\<bar>" using is_doubleI [of "\<bar>k\<bar>" e] \<open>- 1074 \<le> e\<close> by simp
  from fl_id [OF this] have eq: "\<bar>r\<bar> = of_int (rne (\<bar>r\<bar> / 2 powi fexp r)) * 2 powi fexp r"
    using assms(2) by (simp add: fl_def fexp_def)
  have "0 \<le> rne (\<bar>r\<bar> / 2 powi fexp r)"
    using eq pos by (metis linorder_not_less mult_less_0_iff of_int_less_0_iff order_less_asym powi_pos)
  then show eqm: "\<bar>r\<bar> = of_nat m * 2 powi fexp r" using eq by (simp add: m_def)
  note lo = flog2_bounds(1) [OF pos] and hi = flog2_bounds(2) [OF pos]
  have "flog2 \<bar>r\<bar> + 1 \<le> 53 + fexp r" by (simp add: fexp_def)
  then have "\<bar>r\<bar> < 2 powi (53 + fexp r)" using hi powi_mono by (meson order_less_le_trans)
  then have "(of_nat m :: rat) < 2 ^ 53" by (subst (asm) eqm) (simp add: powi_add)
  then show "m < 2 ^ 53" by (metis of_nat_less_iff of_nat_numeral of_nat_power)
  show "2 ^ 52 \<le> m \<or> fexp r = - 1074"
  proof (cases "fexp r = - 1074")
    case False
    then have "2 powi (52 + fexp r) \<le> \<bar>r\<bar>" using lo by (auto simp: fexp_def max_def split: if_splits)
    then have "(2 ^ 52 :: rat) \<le> of_nat m" by (subst (asm) eqm) (simp add: powi_add)
    then show ?thesis by (metis of_nat_le_iff of_nat_numeral of_nat_power)
  qed simp
  have "2 powi flog2 \<bar>r\<bar> < (2 :: rat) powi 1024" using lo assms(3) by simp
  then have "flog2 \<bar>r\<bar> < 1024" by (metis linorder_not_less powi_mono)
  then show "fexp r \<le> 971" by (simp add: fexp_def)
qed

lemma double_value_bits:
  assumes "fl r = r" "\<bar>r\<bar> < 2 ^ 1024"
  shows "double_value (double_bits r) = Inr r" "double_bits r < 2 ^ 64"
proof -
  define m where "m = nat (rne (\<bar>r\<bar> / 2 powi fexp r))"
  define s where "s = (if r < 0 then 1 else 0 :: nat)"
  have dbl: "is_double r" using fl_double [of r] assms(1) by simp
  show "double_value (double_bits r) = Inr r" 
  proof (cases "r = 0")
    case True
    then show ?thesis by (simp add: double_bits_def double_value_def)
  next
    case False
    note mant = double_mantissa [OF dbl False assms(2), folded m_def]
    have r: "r = (if s = 1 then - 1 else 1) * (of_nat m * 2 powi fexp r)"
      using mant(1) by (simp add: s_def abs_if split: if_splits)
    have s: "s < 2" by (simp add: s_def)
    have bits: "double_bits r = s * 2 ^ 63 +
        (if m < 2 ^ 52 then 0 * 2 ^ 52 + m else nat (fexp r + 1075) * 2 ^ 52 + (m - 2 ^ 52))"
      using False by (simp add: double_bits_def Let_def m_def s_def)
    show ?thesis
    proof (cases "m < 2 ^ 52")
      case True
      then have "fexp r = - 1074" using mant(3) by simp
      then show ?thesis using r double_value_fields [OF s, of 0 m] True unfolding bits by simp
    next
      case big: False
      have e: "nat (fexp r + 1075) < 2047" "m - 2 ^ 52 < 2 ^ 52" "- 1074 \<le> fexp r"
        using mant(2,4) by (simp_all add: fexp_def)
      then show ?thesis using r double_value_fields [OF s e(1,2)] big unfolding bits by simp
    qed
  qed
  show "double_bits r < 2 ^ 64"
  proof (cases "r = 0")
    case False
    note mant = double_mantissa [OF dbl False assms(2), folded m_def]
    have "nat (fexp r + 1075) \<le> 2046" using mant(4) by simp
    then show ?thesis using False mant(2)
      by (simp add: double_bits_def Let_def flip: m_def) linarith
  qed (simp add: double_bits_def)
qed


lemma take_drop_block: "length a = i \<Longrightarrow> length b = n \<Longrightarrow> slice i n (a @ b @ c) = b"
  by (simp add: slice_def)

lemma sint_of_mod:
  assumes "- (2 ^ 31) \<le> q" "q < 2 ^ 31"
  shows "sint (word_of_nat (nat (q mod 2 ^ 32)) :: 32 word) = q"
proof -
  have "(word_of_nat (nat (q mod 2 ^ 32)) :: 32 word) = word_of_int (q mod 2 ^ 32)"
    by (rule of_nat_nat) simp
  also have "\<dots> = word_of_int q" by (simp add: word_of_int_eq_iff take_bit_eq_mod)
  finally show ?thesis using assms by (simp add: sint_sbintrunc' signed_take_bit_int_eq_self)
qed

lemma unpack_pack:
  assumes "wire_ok seqno e"
  shows "unpack_md (pack_md seqno e) =
    Inr \<lparr>p_seq = seqno, p_evt = ev_evt e, p_side = ev_side e, p_symbol = pad_nul 8 (ev_symbol e),
         p_price = ev_price e, p_qty = ev_qty e, p_exchange_id = pad_nul 16 (ev_eid e)\<rparr>"
    "length (pack_md seqno e) = MD_SIZE"
proof -
  let ?b = "pack_md seqno e"
  note ok = assms [unfolded wire_ok_def wire_text_def]
  have q: "nat (ev_qty e mod 2 ^ 32) < 256 ^ 4"
    using pos_mod_bound [of "2 ^ 32" "ev_qty e"] by (simp add: nat_less_iff)
  have len [simp]: "length (pad_nul 8 (ev_symbol e)) = 8" "length (pad_nul 16 (ev_eid e)) = 16"
    using ok by simp_all
  have sl: "slice 0 8 ?b = le_bytes 8 seqno" "slice 8 1 ?b = le_bytes 1 (ev_evt e)"
    "slice 9 1 ?b = le_bytes 1 (ev_side e)" "slice 10 8 ?b = pad_nul 8 (ev_symbol e)"
    "slice 18 8 ?b = le_bytes 8 (double_bits (ev_price e))"
    "slice 26 4 ?b = le_bytes 4 (nat (ev_qty e mod 2 ^ 32))"
    "slice 30 16 ?b = pad_nul 16 (ev_eid e)"
    unfolding pack_md_def by (simp_all add: slice_def del: le_bytes.simps)
  have bits: "double_bits (ev_price e) < 256 ^ 8" "double_value (double_bits (ev_price e)) = Inr (ev_price e)"
    using double_value_bits [of "ev_price e"] ok by simp_all
  show "unpack_md ?b = Inr \<lparr>p_seq = seqno, p_evt = ev_evt e, p_side = ev_side e,
      p_symbol = pad_nul 8 (ev_symbol e), p_price = ev_price e, p_qty = ev_qty e,
      p_exchange_id = pad_nul 16 (ev_eid e)\<rparr>"
    unfolding unpack_md_def sl using ok bits q sint_of_mod [of "ev_qty e"]
    by (simp add: le_nat_bytes del: le_bytes.simps)
  show "length ?b = MD_SIZE" by (simp add: pack_md_def MD_SIZE_def MD_FMT_def del: le_bytes.simps)
qed


section \<open>Datagrams as events\<close>

lemma datagram_received_pack:
  assumes "wire_ok seqno e"
  shows "datagram_received now (pack_md seqno e) st =
    (let st1 = apply_event e st;
         st2 = (if ev_side e = SIDE_TRADE then record_trade now (ev_symbol e) (ev_price e) st1 else st1)
     in (Inr ((if map_of (order_book st) (ev_symbol e) = None
               then [WsSymbols (map fst (order_book st2))] else []) @
              [WsMd seqno (ev_evt e) (ev_side e) (ev_symbol e) (ev_price e) (ev_qty e) (ev_eid e)]), st2))"
proof -
  have dec: "decode_ascii (rstrip_nul (pad_nul 8 (ev_symbol e))) = Inr (ev_symbol e)"
    "decode_ascii (rstrip_nul (pad_nul 16 (ev_eid e))) = Inr (ev_eid e)"
    using assms by (simp_all add: wire_ok_def wire_text_def rstrip_pad_nul decode_ascii_def)
  show ?thesis
    unfolding datagram_received_def unpack_pack [OF assms]
    by (simp add: dec apply_event_def Let_def)
qed

definition feed_step :: "rat \<times> bytes \<Rightarrow> 'a md_state_scheme \<Rightarrow> 'a md_state_scheme" where
  "feed_step x st = (case x of (now, data) \<Rightarrow> snd (datagram_received now data st))"

type_synonym wire_event = "rat \<times> nat \<times> md_event"

definition on_wire :: "wire_event \<Rightarrow> rat \<times> bytes" where
  "on_wire x = (case x of (now, seqno, e) \<Rightarrow> (now, pack_md seqno e))"

definition spec_wire :: "wire_event \<Rightarrow> resting \<Rightarrow> resting" where
  "spec_wire x = (case x of (now, seqno, e) \<Rightarrow> spec_event e)"

definition wire_event_ok :: "wire_event \<Rightarrow> resting \<Rightarrow> bool" where
  "wire_event_ok x m \<longleftrightarrow> (case x of (now, seqno, e) \<Rightarrow> wire_ok seqno e \<and> event_ok e m)"

lemma mirror_inv_record_trade [simp]: "mirror_inv (record_trade now symbol price st) = mirror_inv st"
  by (simp add: record_trade_def mirror_inv_def levels_match_def)

lemma order_state_record_trade [simp]: "order_state (record_trade now symbol price st) = order_state st"
  by (simp add: record_trade_def)

interpretation feed: functional_refinement
  "\<lambda>x. feed_step (on_wire x)" spec_wire "\<lambda>st. orders st" mirror_inv wire_event_ok
proof
  fix x :: wire_event and st :: "'a md_state_scheme"
  assume inv: "mirror_inv st" and ok: "wire_event_ok x (orders st)"
  obtain now seqno e where x: "x = (now, seqno, e)" by (cases x)
  have w: "wire_ok seqno e" "event_ok e (orders st)" using ok x by (simp_all add: wire_event_ok_def)
  show "mirror_inv (feed_step (on_wire x) st)"
    using w inv by (simp add: x feed_step_def on_wire_def datagram_received_pack Let_def mirror.step_inv)
  show "orders (feed_step (on_wire x) st) = spec_wire x (orders st)"
    using w inv by (simp add: x feed_step_def on_wire_def spec_wire_def datagram_received_pack Let_def
        mirror.step_abs)
qed

lemma map_of_empty_sides: "map_of (map (\<lambda>sym. (sym, empty_sides)) syms) s \<in> {None, Some empty_sides}"
  by (induction syms) auto

lemma sides_at_initial [simp]: "sides_at symbol (initial_md SYMBOLS) = empty_sides"
proof -
  have "map_of (order_book (initial_md SYMBOLS)) symbol \<in> {None, Some empty_sides}"
    using map_of_empty_sides [of "rev SYMBOLS" symbol]
    by (simp add: initial_md_def map_of_dict_of rev_map)
  then show ?thesis by (auto simp: sides_at_def dict_get_def)
qed

lemma mirror_inv_initial: "mirror_inv (initial_md SYMBOLS)"
proof -
  have "side_of bs empty_sides = []" for bs by (cases bs) (simp_all add: empty_sides_def)
  moreover have "dict_ok (order_book (initial_md SYMBOLS))" "order_state (initial_md SYMBOLS) = []"
    by (simp_all add: initial_md_def)
  ultimately show ?thesis
    by (simp add: mirror_inv_def books_ok_def levels_match_def level_at_def side_ok_def orders_ok_def
        dict_get_def)
qed

lemma initial_orders [simp]: "orders (initial_md SYMBOLS) = Map.empty"
  by (simp add: initial_md_def)

text \<open>
  C1: From the startup state, after any stream of well-formed datagrams that keeps the contract
  of the feed, the order table of the UI server is exactly the set of resting orders the stream
  describes, and every price level of every book shows exactly the sum of the quantities resting
  there.
\<close>

theorem feed_mirrors_resting_orders:
  assumes "run_ok wire_event_ok spec_wire es Map.empty"
  shows "orders (fold feed_step (map on_wire es) (initial_md SYMBOLS)) = fold spec_wire es Map.empty \<and>
    level_at (fold feed_step (map on_wire es) (initial_md SYMBOLS)) symbol bs price =
      resting_at (fold spec_wire es Map.empty) symbol bs price"
proof -
  let ?st = "fold (\<lambda>x. feed_step (on_wire x)) es (initial_md SYMBOLS)"
  have eq: "fold feed_step (map on_wire es) st = fold (\<lambda>x. feed_step (on_wire x)) es st"
    for st :: md_state
    by (induction es arbitrary: st) simp_all
  have run: "mirror_inv ?st" "orders ?st = fold spec_wire es Map.empty"
    using feed.run_refines [OF mirror_inv_initial, of es SYMBOLS] assms by simp_all
  show ?thesis using mirror_exact [OF run(1), of symbol bs price] run(2) by (simp add: eq)
qed

theorem feed_mirrors_resting_orders_witness:
  "let sell = \<lparr>ev_evt = 0, ev_side = SIDE_ASK, ev_symbol = ''AAPL'', ev_price = 301 / 2, ev_qty = 100, ev_eid = ''E1''\<rparr>;
       more = \<lparr>ev_evt = 0, ev_side = SIDE_ASK, ev_symbol = ''AAPL'', ev_price = 301 / 2, ev_qty = 50, ev_eid = ''E2''\<rparr>;
       fill = \<lparr>ev_evt = 2, ev_side = SIDE_ASK, ev_symbol = ''AAPL'', ev_price = 301 / 2, ev_qty = 30, ev_eid = ''E1''\<rparr>;
       es = [(0, 1, sell), (0, 2, more), (0, 3, fill)]
   in run_ok wire_event_ok spec_wire es Map.empty \<and>
      level_at (fold feed_step (map on_wire es) (initial_md [''AAPL''])) ''AAPL'' Asks (301 / 2) = 80"
proof -
  define es :: "wire_event list" where "es =
    [(0, 1, \<lparr>ev_evt = 0, ev_side = SIDE_ASK, ev_symbol = ''AAPL'', ev_price = 301 / 2, ev_qty = 100, ev_eid = ''E1''\<rparr>),
     (0, 2, \<lparr>ev_evt = 0, ev_side = SIDE_ASK, ev_symbol = ''AAPL'', ev_price = 301 / 2, ev_qty = 50, ev_eid = ''E2''\<rparr>),
     (0, 3, \<lparr>ev_evt = 2, ev_side = SIDE_ASK, ev_symbol = ''AAPL'', ev_price = 301 / 2, ev_qty = 30, ev_eid = ''E1''\<rparr>)]"
  have price: "fl (301 / 2) = 301 / 2" by code_simp
  have ok: "run_ok wire_event_ok spec_wire es Map.empty"
    by (simp add: es_def wire_event_ok_def spec_wire_def wire_ok_def wire_text_def event_ok_def spec_event_def
        levels_of_side_def price is_ascii_def)
  have spec: "fold spec_wire es Map.empty =
    [''E1'' \<mapsto> \<lparr>o_price = 301 / 2, o_qty = 30, o_symbol = ''AAPL'', o_side = SIDE_ASK\<rparr>,
     ''E2'' \<mapsto> \<lparr>o_price = 301 / 2, o_qty = 50, o_symbol = ''AAPL'', o_side = SIDE_ASK\<rparr>]"
    by (simp add: es_def spec_wire_def spec_event_def levels_of_side_def fun_eq_iff)
  have "resting_at (fold spec_wire es Map.empty) ''AAPL'' Asks (301 / 2) = 80"
    unfolding spec by (simp add: resting_at_def share_at_def)
  then show ?thesis
    using ok feed_mirrors_resting_orders [OF ok, of "[''AAPL'']" "''AAPL''" Asks "301 / 2"]
    by (simp add: Let_def es_def)
qed


section \<open>What a datagram does\<close>



lemma unpack_md_error: "unpack_md data = Inl x \<Longrightarrow> x = NonFinite"
  by (auto simp: unpack_md_def double_value_def Let_def res_bind_def split: sum.splits if_splits)


text \<open>
  C33: An order reduced to quantity zero by a replace leaves its price level but stays in the order
  table for good, unlike an order filled to zero: the server keeps an entry for an order that no
  longer rests.
\<close>

theorem replace_to_zero_keeps_order:
  assumes "orders st eid = Some r" "levels_of_side side \<noteq> None"
  shows "orders (apply_md 4 side symbol price 0 eid st) eid = Some (r\<lparr>o_qty := 0\<rparr>) \<and>
         orders (apply_md 2 side symbol price 0 eid st) eid = None"
  using assms apply_event_orders [of "\<lparr>ev_evt = 4, ev_side = side, ev_symbol = symbol, ev_price = price, ev_qty = 0, ev_eid = eid\<rparr>" st]
    apply_event_orders [of "\<lparr>ev_evt = 2, ev_side = side, ev_symbol = symbol, ev_price = price, ev_qty = 0, ev_eid = eid\<rparr>" st]
  by (auto simp: apply_event_def spec_event_def)

theorem replace_to_zero_keeps_order_witness:
  "let r = \<lparr>o_price = 150, o_qty = 10, o_symbol = ''AAPL'', o_side = SIDE_BID\<rparr>;
       st = (initial_md [''AAPL''])\<lparr>order_state := [(''E1'', r)]\<rparr>
   in orders (apply_md 4 SIDE_BID ''AAPL'' 150 0 ''E1'' st) ''E1'' = Some (r\<lparr>o_qty := 0\<rparr>)"
  using replace_to_zero_keeps_order [of "(initial_md [''AAPL''])\<lparr>order_state :=
      [(''E1'', \<lparr>o_price = 150, o_qty = 10, o_symbol = ''AAPL'', o_side = SIDE_BID\<rparr>)]\<rparr>" "''E1''" _ SIDE_BID]
  by (simp add: Let_def levels_of_side_def)

end
