(* ===== verification/MdViews.thy ===== *)
theory MdViews
  imports MdFeed
begin

text \<open>
  What a browser is shown of the mirror: the best ten levels of each side, a trade history with
  strictly increasing times whatever datagrams and snapshots arrive, and the seeding of the
  mirror by a FIX market data snapshot.
\<close>

section \<open>The best levels\<close>

lemma sort_key_strict:
  "distinct (map f l) \<Longrightarrow> sorted_wrt (\<lambda>a b. f a < f b) (sort_key f l)"
proof -
  assume "distinct (map f l)"
  then have "distinct (map f (sort_key f l))"
    by (simp add: distinct_map)
  then have "sorted_wrt (<) (map f (sort_key f l))"
    using strict_sorted_iff sorted_sort_key by blast
  then show ?thesis by (simp add: sorted_wrt_map)
qed

lemma best_levels:
  fixes f :: "'a \<Rightarrow> rat" and n :: nat
  assumes "distinct (map f l)"
  defines "xs \<equiv> take n (sort_key f l)"
  shows "sorted_wrt (\<lambda>a b. f a < f b) xs" "set xs \<subseteq> set l" "length xs = min n (length l)"
    and "x \<in> set l \<Longrightarrow> x \<in> set xs \<or> length xs = n \<and> (\<forall>y \<in> set xs. f y < f x)"
proof -
  let ?s = "sort_key f l"
  have s: "sorted_wrt (\<lambda>a b. f a < f b) ?s" by (rule sort_key_strict [OF assms(1)])
  then show "sorted_wrt (\<lambda>a b. f a < f b) xs" unfolding xs_def by (rule sorted_wrt_take)
  show "set xs \<subseteq> set l" unfolding xs_def using set_take_subset by fastforce
  show len: "length xs = min n (length l)" by (simp add: xs_def min.commute)
  assume x: "x \<in> set l"
  show "x \<in> set xs \<or> length xs = n \<and> (\<forall>y \<in> set xs. f y < f x)"
  proof (cases "x \<in> set xs")
    case False
    have "x \<in> set (take n ?s) \<union> set (drop n ?s)"
      using x by (metis append_take_drop_id set_append set_sort)
    then have d: "x \<in> set (drop n ?s)" using False by (simp add: xs_def)
    then have "n < length ?s" by (cases "n < length ?s") auto
    moreover have "\<forall>y \<in> set xs. f y < f x"
      using s d unfolding xs_def by (metis append_take_drop_id sorted_wrt_append)
    ultimately show ?thesis using len by simp
  qed simp
qed

lemma side_ok_keys: "side_ok l \<Longrightarrow> distinct (map fst l) \<and> distinct (map (\<lambda>x. - fst x) l)"
  by (auto simp: side_ok_def dict_ok_def distinct_map inj_on_def)

lemma side_entry:
  assumes "mirror_inv st" "(p, q) \<in> set (side_of bs (sides_at symbol st))"
  shows "q = resting_at (orders st) symbol bs p" "0 < q"
proof -
  have "side_ok (side_of bs (sides_at symbol st))"
    using assms(1) by (simp add: mirror_inv_def books_ok_def)
  then have "level_at st symbol bs p = q" "0 < q"
    using assms(2) by (auto simp: side_ok_def dict_ok_def level_at_def dict_get_def)
  then show "q = resting_at (orders st) symbol bs p" "0 < q"
    using mirror_exact [OF assms(1)] by simp_all
qed

lemma resting_entry:
  assumes "mirror_inv st" "0 < resting_at (orders st) symbol bs p"
  shows "(p, resting_at (orders st) symbol bs p) \<in> set (side_of bs (sides_at symbol st))"
proof -
  have "0 < level_at st symbol bs p" using assms(2) mirror_exact [OF assms(1)] by simp
  then obtain q where "map_of (side_of bs (sides_at symbol st)) p = Some q" "level_at st symbol bs p = q"
    by (auto simp: level_at_def dict_get_def split: option.splits)
  then show ?thesis using mirror_exact [OF assms(1)] by (metis map_of_SomeD)
qed

definition shows_best :: "('a md_state_scheme) \<Rightarrow> string \<Rightarrow> book_side \<Rightarrow> (rat \<Rightarrow> rat \<Rightarrow> bool) \<Rightarrow>
  (rat \<times> int) list \<Rightarrow> bool" where
  "shows_best st symbol bs better xs \<longleftrightarrow>
     length xs \<le> 10 \<and> sorted_wrt (\<lambda>a b. better (fst a) (fst b)) xs \<and>
     (\<forall>(p, q) \<in> set xs. 0 < q \<and> q = resting_at (orders st) symbol bs p) \<and>
     (\<forall>p. 0 < resting_at (orders st) symbol bs p \<longrightarrow>
        p \<in> fst ` set xs \<or> length xs = 10 \<and> (\<forall>p' \<in> fst ` set xs. better p' p))"

lemma shows_best_side:
  fixes key :: "rat \<Rightarrow> rat"
  assumes "mirror_inv st" "\<And>a b. better a b \<longleftrightarrow> key a < key b"
    and "distinct (map (\<lambda>x. key (fst x)) (side_of bs (sides_at symbol st)))"
  shows "shows_best st symbol bs better (take 10 (sort_key (\<lambda>x. key (fst x)) (side_of bs (sides_at symbol st))))"
    (is "shows_best _ _ _ _ ?xs")
proof -
  note best = best_levels [where n = 10, OF assms(3)]
  have "p \<in> fst ` set ?xs \<or> length ?xs = 10 \<and> (\<forall>p' \<in> fst ` set ?xs. better p' p)"
    if "0 < resting_at (orders st) symbol bs p" for p
    using best(4) [OF resting_entry [OF assms(1) that]] assms(2) by force
  moreover have "\<forall>(p, q) \<in> set ?xs. 0 < q \<and> q = resting_at (orders st) symbol bs p"
    using best(2) side_entry [OF assms(1)] by blast
  ultimately show ?thesis using best(1,3) by (simp add: shows_best_def assms(2))
qed

text \<open>
  C23: Whenever the mirror is exact, the snapshot sent to a new browser shows for every symbol of
  the book at most ten levels per side, bids by falling and asks by rising price, each with
  exactly the quantity resting at that price, and a price with resting orders is missing only
  when ten better prices are shown.
\<close>

theorem book_snapshot_best:
  assumes "mirror_inv st" "map_of (book_snapshot st) symbol = Some v"
  shows "shows_best st symbol Bids (\<lambda>a b. b < a) (bv_bids v) \<and>
         shows_best st symbol Asks (\<lambda>a b. a < b) (bv_asks v)"
proof -
  have "book_snapshot st = map (\<lambda>(sym, sides). (sym, (\<lambda>s. \<lparr>bv_bids = best_bids (bids s),
      bv_asks = best_asks (asks s)\<rparr>) sides)) (order_book st)"
    by (simp add: book_snapshot_def)
  then obtain sides where sides: "map_of (order_book st) symbol = Some sides"
    and v: "v = \<lparr>bv_bids = best_bids (bids sides), bv_asks = best_asks (asks sides)\<rparr>"
    using assms(2) by (auto simp: map_of_map)
  then have at: "sides_at symbol st = sides" by (simp add: sides_at_def dict_get_def)
  have ok: "side_ok (side_of bs sides)" for bs
    using assms(1) at by (auto simp: mirror_inv_def books_ok_def)
  show ?thesis
    using shows_best_side [OF assms(1), of "\<lambda>a b. b < a" uminus Bids symbol]
      shows_best_side [OF assms(1), of "\<lambda>a b. a < b" "\<lambda>x. x" Asks symbol]
      side_ok_keys [OF ok [of Bids]] side_ok_keys [OF ok [of Asks]]
    by (simp add: at v best_bids_def best_asks_def)
qed


theorem book_snapshot_best_witness:
  "let e = \<lparr>ev_evt = 0, ev_side = SIDE_BID, ev_symbol = ''AAPL'', ev_price = 150, ev_qty = 10, ev_eid = ''E1''\<rparr>;
       st = apply_event e (initial_md [''AAPL''])
   in map_of (book_snapshot st) ''AAPL'' = Some \<lparr>bv_bids = [(150, 10)], bv_asks = []\<rparr> \<and>
      shows_best st ''AAPL'' Bids (\<lambda>a b. b < a) [(150, 10)] \<and> shows_best st ''AAPL'' Asks (\<lambda>a b. a < b) []"
proof -
  define e where "e = \<lparr>ev_evt = 0, ev_side = SIDE_BID, ev_symbol = ''AAPL'', ev_price = 150, ev_qty = 10, ev_eid = ''E1''\<rparr>"
  define st where "st = apply_event e (initial_md [''AAPL''])"
  have inv: "mirror_inv st"
    unfolding st_def by (rule mirror.step_inv [OF mirror_inv_initial]) (simp add: e_def event_ok_def)
  have v: "map_of (book_snapshot st) ''AAPL'' = Some \<lparr>bv_bids = [(150, 10)], bv_asks = []\<rparr>"
    unfolding st_def e_def by code_simp
  show ?thesis using v book_snapshot_best [OF inv v] by (simp add: Let_def st_def e_def)
qed

section \<open>The trade history\<close>

definition times_ok :: "trade_pt list \<Rightarrow> bool" where
  "times_ok hist \<longleftrightarrow> sorted_wrt (<) (0 # map t_time hist)"

lemma TICK_value: "TICK = 1152921504606847 / 1152921504606846976"
  unfolding TICK_def by code_simp

text \<open>
  A double below \<open>2^41\<close> (some seventy thousand years in seconds) is moved by adding 0.001: the sum is
  rounded by at most \<open>2^-12\<close>.
\<close>

lemma py_add_TICK:
  assumes "0 \<le> x" "x < 2 ^ 41"
  shows "x < py_add x TICK" "py_add x TICK \<le> x + 1"
proof -
  have "\<bar>x + TICK\<bar> < 2 powi 42" using assms by (simp add: TICK_value)
  from fl_error_bound [OF this] have "\<bar>x + TICK - py_add x TICK\<bar> \<le> 1 / 4096"
    by (simp add: py_add_def power_int_def power_one_over)
  moreover have "1 / 4096 < TICK" "TICK < 1 / 2" by (simp_all add: TICK_value)
  ultimately show "x < py_add x TICK" "py_add x TICK \<le> x + 1" by linarith+
qed

lemma times_ok_last: "times_ok hist \<Longrightarrow> 0 \<le> last_time hist"
  by (auto simp: times_ok_def last_time_def less_imp_le)

lemma times_ok_snoc:
  "times_ok hist \<Longrightarrow> last_time hist < t_time x \<Longrightarrow> times_ok (hist @ [x])"
proof -
  assume ok: "times_ok hist" and lt: "last_time hist < t_time x"
  have le: "t_time y \<le> last_time hist" if y: "y \<in> set hist" for y
  proof -
    obtain ys z where h: "hist = ys @ [z]" using y by (cases hist rule: rev_cases) auto
    then show ?thesis using y ok by (auto simp: times_ok_def last_time_def sorted_wrt_append less_imp_le)
  qed
  have "t_time y < t_time x" if "y \<in> set hist" for y using lt le [OF that] by linarith
  moreover have "0 < t_time x" using lt times_ok_last [OF ok] by linarith
  ultimately show "times_ok (hist @ [x])" using ok by (simp add: times_ok_def sorted_wrt_append)
qed

lemma append_trade_ok:
  assumes "times_ok hist" "last_time hist < 2 ^ 41"
  shows "times_ok (append_trade t price hist)"
    and "last_time (append_trade t price hist) \<le> max t (last_time hist + 1)"
proof -
  note tick = py_add_TICK [OF times_ok_last [OF assms(1)] assms(2)]
  show "times_ok (append_trade t price hist)"
    unfolding append_trade_def using tick(1) by (intro times_ok_snoc [OF assms(1)]) simp
  show "last_time (append_trade t price hist) \<le> max t (last_time hist + 1)"
    using tick(2) by (auto simp: append_trade_def last_time_def max_def)
qed


text \<open>
  The two sources of trades, in any order: datagrams, with the clock when each arrives, and FIX
  snapshots.
\<close>

datatype md_input = Udp rat bytes | Snap fix_msg

definition entries_of :: "fix_msg \<Rightarrow> md_entry list" where
  "entries_of msg = (case fm_entries msg of None \<Rightarrow> [] | Some es \<Rightarrow> es)"

fun md_input_step :: "(string \<Rightarrow> rat option) \<Rightarrow> md_input \<Rightarrow> md_state \<Rightarrow> md_state" where
  "md_input_step ts_of (Udp now data) st = snd (datagram_received now data st)"
| "md_input_step ts_of (Snap msg) st = process_md_snapshot ts_of msg st"

fun md_input_trades :: "md_input \<Rightarrow> nat" where
  "md_input_trades (Udp now data) = 1"
| "md_input_trades (Snap msg) = length (entries_of msg)"

fun md_input_clock :: "md_input \<Rightarrow> rat" where
  "md_input_clock (Udp now data) = now"
| "md_input_clock (Snap msg) = 0"

definition history_ok :: "nat \<Rightarrow> trade_pt list \<Rightarrow> bool" where
  "history_ok n h \<longleftrightarrow> times_ok h \<and> last_time h \<le> 2 ^ 40 + of_nat n"

definition histories_ok :: "nat \<Rightarrow> 'a md_state_scheme \<Rightarrow> bool" where
  "histories_ok n st \<longleftrightarrow> (\<forall>symbol h. map_of (trade_history st) symbol = Some h \<longrightarrow> history_ok n h)"

lemma history_ok_Nil [simp]: "history_ok n []"
  by (simp add: history_ok_def times_ok_def last_time_def)

lemma history_ok_mono: "history_ok n h \<Longrightarrow> n \<le> k \<Longrightarrow> history_ok k h"
proof -
  assume "n \<le> k"
  then have "(of_nat n :: rat) \<le> of_nat k" by simp
  then show "history_ok n h \<Longrightarrow> history_ok k h" unfolding history_ok_def by linarith
qed

lemma history_ok_append:
  assumes "history_ok n h" "t \<le> 2 ^ 40" "n < 2 ^ 40"
  shows "history_ok (Suc n) (append_trade t price h)"
proof -
  have "(of_nat n :: rat) < of_nat (2 ^ 40)" using assms(3) by (simp only: of_nat_less_iff)
  then have "(of_nat n :: rat) < 2 ^ 40" by (simp only: of_nat_power of_nat_numeral)
  then have "last_time h < 2 ^ 41" using assms(1) by (simp add: history_ok_def)
  then show ?thesis
    using append_trade_ok [of h t price] assms by (auto simp: history_ok_def max_def split: if_splits)
qed


lemma levels_trade_history [simp]: "trade_history (snd (levels symbol side st)) = trade_history st"
  by (simp add: levels_def)

lemma apply_md_trade_history [simp]:
  "trade_history (apply_md evt side symbol price qty eid st) = trade_history st"
  unfolding apply_md_def by (auto simp: case_prod_beta Let_def levels_def split: option.split)

lemma histories_ok_mono: "histories_ok n st \<Longrightarrow> n \<le> k \<Longrightarrow> histories_ok k st"
  unfolding histories_ok_def using history_ok_mono by blast

lemma histories_ok_record:
  assumes "histories_ok n st" "now \<le> 2 ^ 40" "n < 2 ^ 40"
  shows "histories_ok (Suc n) (record_trade now symbol price st)"
proof -
  have "history_ok n (dict_get (trade_history st) symbol [])"
    using assms(1) by (auto simp: histories_ok_def dict_get_def split: option.split)
  then show ?thesis
    using history_ok_append [OF _ assms(2,3)] histories_ok_mono [OF assms(1), of "Suc n"]
    by (auto simp: histories_ok_def record_trade_def)
qed

lemma datagram_received_history:
  "trade_history (snd (datagram_received now data st)) = trade_history st \<or>
   (\<exists>symbol price. trade_history (snd (datagram_received now data st)) =
      trade_history (record_trade now symbol price st))"
  unfolding datagram_received_def
  by (auto simp: Let_def record_trade_def split: sum.split)

lemma histories_ok_datagram:
  assumes "histories_ok n st" "now \<le> 2 ^ 40" "n < 2 ^ 40"
  shows "histories_ok (Suc n) (snd (datagram_received now data st))"
  using datagram_received_history [of now data st] histories_ok_record [OF assms]
    histories_ok_mono [OF assms(1), of "Suc n"]
  unfolding histories_ok_def by (elim disjE exE) simp_all

lemma snapshot_entry_trades:
  "sa_trades (snapshot_entry ts_of symbol e a) = sa_trades a \<or>
   (\<exists>s t p. ts_of s = Some t \<and> sa_trades (snapshot_entry ts_of symbol e a) = append_trade t p (sa_trades a))"
  unfolding snapshot_entry_def by (auto simp: Let_def split: option.split)

lemma snapshot_fold_trades:
  assumes "\<And>s t. ts_of s = Some t \<Longrightarrow> t \<le> 2 ^ 40" "history_ok n (sa_trades a)" "n + length es < 2 ^ 40"
  shows "history_ok (n + length es) (sa_trades (fold (snapshot_entry ts_of symbol) es a))"
  using assms(2,3)
proof (induction es arbitrary: n a)
  case (Cons e es)
  have "history_ok (Suc n) (sa_trades (snapshot_entry ts_of symbol e a))"
    using snapshot_entry_trades [of ts_of symbol e a] Cons.prems assms(1)
      history_ok_mono [OF Cons.prems(1), of "Suc n"] history_ok_append [OF Cons.prems(1)]
    by (elim disjE exE conjE) simp_all
  from Cons.IH [OF this] show ?case using Cons.prems by simp
qed simp

lemma histories_ok_snapshot:
  assumes "\<And>s t. ts_of s = Some t \<Longrightarrow> t \<le> 2 ^ 40" "histories_ok n st"
    and "n + length (entries_of msg) < 2 ^ 40"
  shows "histories_ok (n + length (entries_of msg)) (process_md_snapshot ts_of msg st)"
proof -
  let ?n = "n + length (entries_of msg)"
  have "history_ok ?n (sa_trades (fold (snapshot_entry ts_of symbol) (entries_of msg)
      \<lparr>sa_bids = [], sa_asks = [], sa_trades = [], sa_orders = os\<rparr>))" for symbol os
    by (rule snapshot_fold_trades) (use assms in auto)
  then show ?thesis
    using histories_ok_mono [OF assms(2), of ?n]
    by (auto simp: histories_ok_def process_md_snapshot_def Let_def entries_of_def [symmetric]
        split: option.split)
qed

lemma histories_ok_run:
  assumes "\<And>s t. ts_of s = Some t \<Longrightarrow> t \<le> 2 ^ 40"
    and "\<forall>x \<in> set xs. md_input_clock x \<le> 2 ^ 40" "n + sum_list (map md_input_trades xs) < 2 ^ 40"
    and "histories_ok n st"
  shows "histories_ok (n + sum_list (map md_input_trades xs)) (fold (md_input_step ts_of) xs st)"
  using assms(2-4)
proof (induction xs arbitrary: n st)
  case (Cons x xs)
  have "histories_ok (n + md_input_trades x) (md_input_step ts_of x st)"
    using Cons.prems histories_ok_datagram [of n st] histories_ok_snapshot [of ts_of n st] assms(1)
    by (cases x) simp_all
  from Cons.IH [OF _ _ this] show ?case using Cons.prems by (simp add: add.assoc)
qed simp

text \<open>
  C22: The chart needs strictly increasing times. Whatever datagrams arrive (any bytes at all) and
  whatever snapshots are read, in any order, the recorded times of every symbol are strictly
  increasing: the 1 ms bump of the code survives the rounding of double arithmetic. The clock and
  the parsed times are assumed below \<open>2^40\<close> seconds and the number of trades below \<open>2^40\<close>.
\<close>

theorem trade_history_increasing:
  assumes "\<forall>s t. ts_of s = Some t \<longrightarrow> t \<le> 2 ^ 40"
    and "\<forall>x \<in> set xs. md_input_clock x \<le> 2 ^ 40" "sum_list (map md_input_trades xs) < 2 ^ 40"
    and "map_of (trade_history (fold (md_input_step ts_of) xs (initial_md SYMBOLS))) symbol = Some h"
  shows "sorted_wrt (<) (map t_time h)"
proof -
  have "histories_ok 0 (initial_md SYMBOLS)" by (simp add: histories_ok_def initial_md_def)
  with histories_ok_run [of ts_of xs 0] assms(1-3)
  have "histories_ok (sum_list (map md_input_trades xs)) (fold (md_input_step ts_of) xs (initial_md SYMBOLS))"
    by simp
  then show ?thesis using assms(4) by (auto simp: histories_ok_def history_ok_def times_ok_def)
qed


theorem trade_history_increasing_witness:
  "let e = \<lparr>ev_evt = 3, ev_side = SIDE_TRADE, ev_symbol = ''AAPL'', ev_price = 150, ev_qty = 10, ev_eid = ''E1''\<rparr>;
       xs = [Udp 1700000000 (pack_md 2 e), Udp 1700000000 (pack_md 3 e)]
   in \<exists>h. map_of (trade_history (fold (md_input_step (\<lambda>s. None)) xs (initial_md [''AAPL'']))) ''AAPL'' = Some h \<and>
          length h = 2 \<and> sorted_wrt (<) (map t_time h)"
proof -
  define e where "e = \<lparr>ev_evt = 3, ev_side = SIDE_TRADE, ev_symbol = ''AAPL'', ev_price = 150, ev_qty = 10, ev_eid = ''E1''\<rparr>"
  define xs where "xs = [Udp 1700000000 (pack_md 2 e), Udp 1700000000 (pack_md 3 e)]"
  have "fl 150 = 150" by code_simp
  then have wire: "wire_ok 2 e" "wire_ok 3 e"
    by (simp_all add: e_def wire_ok_def wire_text_def is_ascii_def)
  have "ev_side e = SIDE_TRADE" "ev_symbol e = ''AAPL''" "ev_price e = 150" by (simp_all add: e_def)
  then have hist: "trade_history (snd (datagram_received now (pack_md k e) st)) =
      AList.update ''AAPL'' (append_trade now 150 (dict_get (trade_history st) ''AAPL'' [])) (trade_history st)"
    if "wire_ok k e" for now k and st :: md_state
    using that by (simp add: datagram_received_pack Let_def record_trade_def apply_event_def)
  obtain h where h: "map_of (trade_history (fold (md_input_step (\<lambda>s. None)) xs (initial_md [''AAPL'']))) ''AAPL'' = Some h"
    and l: "length h = 2"
    by (simp add: xs_def hist [OF wire(1)] hist [OF wire(2)] append_trade_def dict_get_def initial_md_def)
  have "\<forall>x \<in> set xs. md_input_clock x \<le> 2 ^ 40" "sum_list (map md_input_trades xs) < 2 ^ 40"
    by (simp_all add: xs_def)
  from trade_history_increasing [OF _ this h] h l show ?thesis
    by (auto simp: Let_def xs_def e_def)
qed

section \<open>Seeding by a snapshot\<close>

definition entry_qty :: "md_entry \<Rightarrow> int" where
  "entry_qty e = (case e_qty e of None \<Rightarrow> 0 | Some q \<Rightarrow> q)"

fun side_text :: "book_side \<Rightarrow> string" where
  "side_text Bids = ''0''"
| "side_text Asks = ''1''"

text \<open>The entries that stand for a resting order, and what such an entry adds to a level.\<close>

definition resting_entries :: "book_side \<Rightarrow> md_entry list \<Rightarrow> md_entry list" where
  "resting_entries bs es =
     filter (\<lambda>e. e_price e \<noteq> None \<and> 0 < entry_qty e \<and> e_type e = side_text bs) es"

definition is_resting :: "md_entry \<Rightarrow> bool" where
  "is_resting e \<longleftrightarrow> e_price e \<noteq> None \<and> 0 < entry_qty e \<and> e_type e \<in> {''0'', ''1''}"

definition seed_ok :: "string set \<Rightarrow> md_entry list \<Rightarrow> bool" where
  "seed_ok known es \<longleftrightarrow>
     distinct (map e_eid (filter is_resting es)) \<and>
     (\<forall>e \<in> set (filter is_resting es). \<exists>i. e_eid e = Some i \<and> i \<noteq> [] \<and> i \<notin> known)"

fun acc_side :: "book_side \<Rightarrow> snap_acc \<Rightarrow> (rat, int) dict" where
  "acc_side Bids a = sa_bids a"
| "acc_side Asks a = sa_asks a"

definition seed_inv :: "string \<Rightarrow> (string, order_rec) dict \<Rightarrow> snap_acc \<Rightarrow> bool" where
  "seed_inv symbol os a \<longleftrightarrow>
     orders_ok (sa_orders a) \<and> (\<forall>bs. side_ok (acc_side bs a)) \<and>
     (\<forall>bs p. dict_get (acc_side bs a) p 0 = dict_sum (share_at symbol bs p) (sa_orders a)) \<and>
     (\<forall>s bs p. s \<noteq> symbol \<longrightarrow>
        dict_sum (share_at s bs p) (sa_orders a) = dict_sum (share_at s bs p) os)"

lemma is_restingE:
  assumes "is_resting e"
  obtains bs p where "e_price e = Some p" "0 < entry_qty e" "e_type e = side_text bs"
  using assms by (auto simp: is_resting_def) (metis side_text.simps)+

lemma snapshot_entry_resting:
  assumes "e_price e = Some p" "0 < entry_qty e" "e_type e = side_text bs" "e_eid e = Some i" "i \<noteq> []"
  shows "sa_orders (snapshot_entry ts_of symbol e a) = AList.update i
      \<lparr>o_price = p, o_qty = entry_qty e, o_symbol = symbol, o_side = side_code bs\<rparr> (sa_orders a)"
  using assms by (cases bs) (simp_all add: snapshot_entry_def entry_qty_def Let_def note_order_def)

lemma snapshot_entry_level:
  assumes "e_price e = Some p" "0 < entry_qty e" "e_type e = side_text bs"
  shows "acc_side bs' (snapshot_entry ts_of symbol e a) =
      (if bs' = bs then AList.update p (dict_get (acc_side bs a) p 0 + entry_qty e) (acc_side bs a)
       else acc_side bs' a)"
  using assms by (cases bs; cases bs'; simp add: snapshot_entry_def entry_qty_def Let_def)

lemma snapshot_entry_other:
  assumes "\<not> is_resting e"
  shows "sa_orders (snapshot_entry ts_of symbol e a) = sa_orders a"
    and "acc_side bs (snapshot_entry ts_of symbol e a) = acc_side bs a"
  using assms
  by (cases bs; auto simp: snapshot_entry_def is_resting_def entry_qty_def Let_def split: option.split)+

lemma side_ok_update: "side_ok l \<Longrightarrow> 0 < q \<Longrightarrow> side_ok (AList.update p q l)"
  using set_update_subset [of p q l] by (auto simp: side_ok_def)

lemma seed_inv_entry:
  assumes "seed_inv symbol os a" "is_resting e" "e_eid e = Some i" "i \<noteq> []" "map_of (sa_orders a) i = None"
  shows "seed_inv symbol os (snapshot_entry ts_of symbol e a)"
proof -
  obtain bs p where e: "e_price e = Some p" "0 < entry_qty e" "e_type e = side_text bs"
    using assms(2) by (rule is_restingE)
  note eq = snapshot_entry_resting [OF e assms(3,4), of ts_of symbol a]
    snapshot_entry_level [OF e, where ts_of = ts_of and symbol = symbol and a = a]
  have oo: "orders_ok (sa_orders a)" and ok: "dict_ok (sa_orders a)"
    using assms(1) by (simp_all add: seed_inv_def orders_ok_def)
  show ?thesis
    using assms(1,5) e(2) orders_ok_sum [OF oo]
    by (auto simp: seed_inv_def eq orders_ok_update dict_sum_update [OF ok] share_at_def side_ok_update add_nonneg_pos)
       (auto simp: dict_get_def)
qed

lemma seed_inv_fold:
  assumes "seed_inv symbol os a" "seed_ok (dom (map_of (sa_orders a))) es"
  shows "seed_inv symbol os (fold (snapshot_entry ts_of symbol) es a)"
  using assms
proof (induction es arbitrary: a)
  case (Cons e es)
  let ?a = "snapshot_entry ts_of symbol e a"
  have "seed_inv symbol os ?a \<and> seed_ok (dom (map_of (sa_orders ?a))) es"
  proof (cases "is_resting e")
    case True
    then obtain i where i: "e_eid e = Some i" "i \<noteq> []" "map_of (sa_orders a) i = None"
      using Cons.prems(2) by (auto simp: seed_ok_def)
    obtain bs p where "e_price e = Some p" "0 < entry_qty e" "e_type e = side_text bs"
      using True by (rule is_restingE)
    note eq = snapshot_entry_resting [OF this i(1,2), of ts_of symbol a]
    have "seed_ok (dom (map_of (sa_orders ?a))) es"
      using Cons.prems(2) True i(1) by (auto simp: seed_ok_def eq) (metis (mono_tags, lifting) image_eqI mem_Collect_eq)
    then show ?thesis using seed_inv_entry [OF Cons.prems(1) True i] by simp
  next
    case False
    note eq = snapshot_entry_other [OF False, where ts_of = ts_of and symbol = symbol and a = a]
    show ?thesis using Cons.prems False by (simp add: seed_inv_def seed_ok_def eq)
  qed
  then show ?case using Cons.IH by simp
qed simp


definition entries_at :: "book_side \<Rightarrow> rat \<Rightarrow> md_entry list \<Rightarrow> int" where
  "entries_at bs price es =
     (\<Sum>e \<leftarrow> resting_entries bs es. if e_price e = Some price then entry_qty e else 0)"

lemma side_text_inject [simp]: "side_text b = side_text bs \<longleftrightarrow> b = bs"
  by (cases b; cases bs) auto

lemma snapshot_fold_levels:
  "dict_get (acc_side bs (fold (snapshot_entry ts_of symbol) es a)) price 0 =
     dict_get (acc_side bs a) price 0 + entries_at bs price es"
proof (induction es arbitrary: a)
  case (Cons e es)
  show ?case
  proof (cases "is_resting e")
    case True
    obtain b p where e: "e_price e = Some p" "0 < entry_qty e" "e_type e = side_text b"
      using True by (rule is_restingE)
    show ?thesis using Cons e
      by (simp add: snapshot_entry_level [OF e] entries_at_def resting_entries_def) (simp add: dict_get_def)
  next
    case False
    then have "resting_entries bs (e # es) = resting_entries bs es"
      by (cases bs) (auto simp: resting_entries_def is_resting_def)
    then show ?thesis using Cons by (simp add: snapshot_entry_other [OF False] entries_at_def)
  qed
qed (simp add: entries_at_def resting_entries_def)

lemma snapshot_seeds:
  assumes "mirror_inv st" "map_of (order_book st) (msg_get msg ''55'' []) \<noteq> None"
    and "\<forall>eid r. orders st eid = Some r \<longrightarrow> o_symbol r \<noteq> msg_get msg ''55'' []"
    and "seed_ok (dom (orders st)) (entries_of msg)"
  shows "mirror_inv (process_md_snapshot ts_of msg st) \<and>
    level_at (process_md_snapshot ts_of msg st) symbol bs price =
      (if symbol = msg_get msg ''55'' [] then entries_at bs price (entries_of msg)
       else level_at st symbol bs price)"
proof -
  define sym where "sym = msg_get msg ''55'' []"
  define a where "a = fold (snapshot_entry ts_of sym) (entries_of msg)
    \<lparr>sa_bids = [], sa_asks = [], sa_trades = [], sa_orders = order_state st\<rparr>"
  let ?st = "process_md_snapshot ts_of msg st"
  have oo: "orders_ok (order_state st)" using assms(1) by (simp add: mirror_inv_def)
  have none: "dict_sum (share_at sym b p) (order_state st) = 0" for b p
    using assms(3) oo
    by (subst dict_sum_dom) (auto simp: orders_ok_def sym_def share_at_def intro!: sum.neutral)
  have nil: "acc_side b \<lparr>sa_bids = [], sa_asks = [], sa_trades = [], sa_orders = os\<rparr> = []" for b os
    by (cases b) simp_all
  have "seed_inv sym (order_state st) a" unfolding a_def
    by (rule seed_inv_fold) (use assms(4) oo none in \<open>simp_all add: seed_inv_def nil side_ok_def dict_get_def\<close>)
  then have seed: "orders_ok (sa_orders a)" "\<And>b. side_ok (acc_side b a)"
    "\<And>b p. dict_get (acc_side b a) p 0 = dict_sum (share_at sym b p) (sa_orders a)"
    "\<And>s b p. s \<noteq> sym \<Longrightarrow> dict_sum (share_at s b p) (sa_orders a) = dict_sum (share_at s b p) (order_state st)"
    by (simp_all add: seed_inv_def)
  obtain sides where sides: "map_of (order_book st) sym = Some sides"
    using assms(2) by (auto simp: sym_def)
  have os: "order_state ?st = sa_orders a"
    and ob: "order_book ?st = AList.update sym (sides\<lparr>bids := sa_bids a, asks := sa_asks a\<rparr>) (order_book st)"
    using sides by (simp_all add: process_md_snapshot_def Let_def a_def sym_def entries_of_def)
  have "side_of b (sides\<lparr>bids := sa_bids a, asks := sa_asks a\<rparr>) = acc_side b a" for b
    by (cases b) simp_all
  then have side: "side_of b (sides_at s ?st) = (if s = sym then acc_side b a else side_of b (sides_at s st))"
    for s b by (simp add: sides_at_def ob dict_get_def)
  have lv: "level_at ?st s b p = (if s = sym then entries_at b p (entries_of msg) else level_at st s b p)" for s b p
    using snapshot_fold_levels [of b ts_of sym "entries_of msg" _ p]
    by (simp add: level_at_def side) (simp add: a_def nil dict_get_def)
  have "books_ok ?st" using assms(1) seed(2) by (auto simp: mirror_inv_def books_ok_def side ob)
  moreover have "levels_match ?st (sa_orders a)"
    using assms(1) seed(3,4) by (simp add: levels_match_def level_at_def side mirror_inv_def)
  ultimately show ?thesis using seed(1) by (simp add: mirror_inv_def os lv sym_def)
qed


text \<open>
  C30: A snapshot for a known symbol with no orders yet replaces the two sides of that symbol's
  book by the sums of the snapshot's entries per price, and when its entries carry fresh order
  ids the mirror stays exact, so that the incremental events that follow act on the right state.
\<close>

theorem snapshot_seeds_mirror:
  assumes "mirror_inv st" "map_of (order_book st) (msg_get msg ''55'' []) \<noteq> None"
    and "\<forall>eid r. orders st eid = Some r \<longrightarrow> o_symbol r \<noteq> msg_get msg ''55'' []"
    and "seed_ok (dom (orders st)) (entries_of msg)"
  shows "mirror_inv (process_md_snapshot ts_of msg st) \<and>
    level_at (process_md_snapshot ts_of msg st) symbol bs price =
      (if symbol = msg_get msg ''55'' [] then entries_at bs price (entries_of msg)
       else level_at st symbol bs price)"
  by (rule snapshot_seeds [OF assms])

theorem snapshot_seeds_mirror_witness:
  "let bid = (new_entry ''0'')\<lparr>e_price := Some 150, e_qty := Some 10, e_eid := Some ''E1''\<rparr>;
       more = (new_entry ''0'')\<lparr>e_price := Some 150, e_qty := Some 5, e_eid := Some ''E2''\<rparr>;
       msg = \<lparr>fm_fields = [(''35'', ''W''), (''55'', ''AAPL'')], fm_entries = Some [bid, more]\<rparr>;
       st = process_md_snapshot (\<lambda>s. None) msg (initial_md [''AAPL''])
   in mirror_inv st \<and> level_at st ''AAPL'' Bids 150 = 15"
proof -
  define es where "es = [(new_entry ''0'')\<lparr>e_price := Some 150, e_qty := Some 10, e_eid := Some ''E1''\<rparr>,
    (new_entry ''0'')\<lparr>e_price := Some 150, e_qty := Some 5, e_eid := Some ''E2''\<rparr>]"
  define msg where "msg = \<lparr>fm_fields = [(''35'', ''W''), (''55'', ''AAPL'')], fm_entries = Some es\<rparr>"
  have es: "entries_of msg = es" and sym: "msg_get msg ''55'' [] = ''AAPL''"
    by (simp_all add: msg_def entries_of_def msg_get_def dict_get_def)
  have 1: "map_of (order_book (initial_md [''AAPL''])) (msg_get msg ''55'' []) \<noteq> None"
    by (simp add: sym initial_md_def dict_of_def)
  have 2: "seed_ok (dom (orders (initial_md [''AAPL'']))) (entries_of msg)"
    by (simp add: es es_def seed_ok_def is_resting_def entry_qty_def new_entry_def)
  have "entries_at Bids 150 es = 15"
    by (simp add: es_def entries_at_def resting_entries_def entry_qty_def new_entry_def)
  then show ?thesis
    using snapshot_seeds_mirror [OF mirror_inv_initial 1 _ 2, of "\<lambda>s. None" "''AAPL''" Bids 150]
    by (simp add: es sym Let_def flip: es_def msg_def)
qed

end
