(* ===== verification/PyRepr.thy ===== *)
theory PyRepr
  imports PyFloat
begin

text \<open>
  The text of a float. \<open>repr_float\<close> of \<open>PyFloat\<close> prints the shortest decimal that reads back as
  the number; here it is proved that it does, so that a price that goes out as text is the price
  that was meant. Seventeen digits are enough: two different doubles are further apart than the
  sixteenth digit of either.
\<close>

section \<open>Doubles are spread out\<close>

lemma double_gap:
  assumes "is_double x" "is_double r" "0 < x" "r \<noteq> x"
  shows "x / 10 ^ 16 < \<bar>r - x\<bar>"
proof (rule ccontr)
  assume "\<not> x / 10 ^ 16 < \<bar>r - x\<bar>"
  then have close: "\<bar>r - x\<bar> \<le> x / 10 ^ 16" by simp
  obtain k e where k: "x = of_int k * 2 powi e" "\<bar>k\<bar> < 2 ^ 53" using assms(1) by (auto simp: is_double_def)
  obtain l f where l: "r = of_int l * 2 powi f" "\<bar>l\<bar> < 2 ^ 53" using assms(2) by (auto simp: is_double_def)
  have mult: "\<exists>n. r - x = of_int n * 2 powi min e f"
  proof (cases "e \<le> f")
    case True
    have "2 powi f = (2 :: rat) ^ nat (f - e) * 2 powi e"
      using True powi_add [of "f - e" e] powi_int [of "nat (f - e)"] by simp
    then have "r - x = of_int (l * 2 ^ nat (f - e) - k) * 2 powi min e f"
      using True by (simp add: k l algebra_simps)
    then show ?thesis by blast
  next
    case False
    have "2 powi e = (2 :: rat) ^ nat (e - f) * 2 powi f"
      using False powi_add [of "e - f" f] powi_int [of "nat (e - f)"] by simp
    then have "r - x = of_int (l - k * 2 ^ nat (e - f)) * 2 powi min e f"
      using False by (simp add: k l algebra_simps)
    then show ?thesis by blast
  qed
  then obtain n where n: "r - x = of_int n * 2 powi min e f" by blast
  have "n \<noteq> 0" using n assms(4) by auto
  then have "(1 :: rat) \<le> of_int \<bar>n\<bar>" by linarith
  then have far: "2 powi min e f \<le> \<bar>r - x\<bar>"
    using mult_right_mono [of 1 "of_int \<bar>n\<bar>" "2 powi min e f"] by (simp add: n abs_mult)
  have bound: "\<bar>of_int m * 2 powi g\<bar> < (2 :: rat) ^ 53 * 2 powi g" if "\<bar>m\<bar> < 2 ^ 53" for m g
  proof -
    have "(of_int \<bar>m\<bar> :: rat) < of_int (2 ^ 53)" using that by (simp only: of_int_less_iff)
    then show ?thesis by (simp add: abs_mult)
  qed
  have "x < 2 ^ 53 * 2 powi e" "r < 2 ^ 53 * 2 powi f"
    using order.strict_trans1 [OF abs_ge_self bound [OF k(2), of e]]
      order.strict_trans1 [OF abs_ge_self bound [OF l(2), of f]] by (simp_all only: k(1) l(1))
  moreover have "x - x / 10 ^ 16 \<le> r" using close by linarith
  ultimately have "x - x / 10 ^ 16 < 2 ^ 53 * 2 powi min e f"
    using assms(3) by (auto simp: min_def)
  then show False using close far assms(3) by simp
qed

lemma fl_close:
  assumes "is_double x" "0 < x" "\<bar>y - x\<bar> \<le> x / (2 * 10 ^ 16)"
  shows "fl y = x"
proof (rule ccontr)
  assume "fl y \<noteq> x"
  then have "x / 10 ^ 16 < \<bar>fl y - x\<bar>" by (rule double_gap [OF assms(1) fl_double assms(2)])
  moreover have "\<bar>y - fl y\<bar> \<le> \<bar>y - x\<bar>" by (rule fl_nearest [OF assms(1)])
  moreover have "\<bar>fl y - x\<bar> \<le> \<bar>y - fl y\<bar> + \<bar>y - x\<bar>" by linarith
  ultimately show False using assms(3) by simp
qed

section \<open>Seventeen digits suffice\<close>

lemma str_nat_bounds: "0 < n \<Longrightarrow> 10 ^ (length (str_nat n) - 1) \<le> n \<and> n < 10 ^ length (str_nat n)"
proof (induction n rule: str_nat.induct)
  case (1 n)
  show ?case
  proof (cases "n < 10")
    case True
    then show ?thesis using 1 by (simp add: str_nat.simps [of n])
  next
    case False
    then have ih: "10 ^ (length (str_nat (n div 10)) - 1) \<le> n div 10" "n div 10 < 10 ^ length (str_nat (n div 10))"
      using 1(1) by simp_all
    have "length (str_nat (n div 10)) = Suc (length (str_nat (n div 10)) - 1)"
      by (simp add: Suc_leI)
    then have "(10 :: nat) ^ length (str_nat (n div 10)) = 10 * 10 ^ (length (str_nat (n div 10)) - 1)"
      by (metis power_Suc)
    moreover have "n = 10 * (n div 10) + n mod 10" "n mod 10 < 10" by simp_all
    ultimately have "10 * 10 ^ (length (str_nat (n div 10)) - 1) \<le> n" "n < 10 * 10 ^ length (str_nat (n div 10))"
      using ih by linarith+
    then show ?thesis using False \<open>10 ^ length (str_nat (n div 10)) = _\<close> by (simp add: str_nat.simps [of n])
  qed
qed

lemma flog10_le:
  assumes "0 < x"
  shows "10 powi flog10 x \<le> x"
proof (cases "1 \<le> x")
  case True
  let ?n = "nat \<lfloor>x\<rfloor>"
  have "0 < ?n" "str_int \<lfloor>x\<rfloor> = str_nat ?n" using True by (simp_all add: str_int_def)
  then have k: "flog10 x = int (length (str_nat ?n) - 1)" "10 ^ (length (str_nat ?n) - 1) \<le> ?n"
    using True str_nat_bounds [of ?n] by (simp_all add: flog10_def of_nat_diff Suc_leI)
  have "of_nat (10 ^ (length (str_nat ?n) - 1)) \<le> (of_nat ?n :: rat)" using k(2) by (simp only: of_nat_le_iff)
  moreover have "of_nat ?n \<le> x" using True by simp
  ultimately have "of_nat (10 ^ (length (str_nat ?n) - 1)) \<le> x" by (rule order_trans)
  then show ?thesis unfolding k(1) power_int_of_nat of_nat_power of_nat_numeral .
next
  case False
  let ?i = "\<lceil>1 / x\<rceil> - 1"
  have "1 < 1 / x" using False assms by simp
  then have i: "0 < ?i" by linarith
  then have "\<not> ?i < 0" by linarith
  then have s: "str_int ?i = str_nat (nat ?i)" by (simp only: str_int_def if_False)
  let ?l = "length (str_nat (nat ?i))"
  have "nat ?i < 10 ^ ?l" using str_nat_bounds [of "nat ?i"] i by simp
  then have "int (nat ?i) < int (10 ^ ?l)" by (simp only: of_nat_less_iff)
  then have "?i < 10 ^ ?l" unfolding of_nat_power of_nat_numeral using i by linarith
  then have "\<lceil>1 / x\<rceil> \<le> 10 ^ ?l" by simp
  then have "1 / x \<le> of_int (10 ^ ?l)" by (simp only: ceiling_le_iff)
  then have "1 / 10 ^ ?l \<le> x" using assms by (simp add: field_simps)
  moreover have "10 powi flog10 x = 1 / (10 :: rat) ^ ?l"
    using False s by (simp add: flog10_def power_int_minus field_simps)
  ultimately show ?thesis by simp
qed

lemma shortest_digits_found:
  assumes "is_double x" "0 < x" "n + k = 18" "0 < k" "shortest_digits k n x = (d, sc)"
  shows "fl (of_int d * 10 powi sc) = x"
  using assms(3-5)
proof (induction k arbitrary: n)
  case (Suc k)
  let ?sc = "flog10 x - int n + 1"
  let ?m = "rne (x / 10 powi ?sc)"
  let ?ok = "\<lambda>d. fl (of_int d * 10 powi ?sc) = x"
  show ?case
  proof (cases "find ?ok [?m, ?m + 1, ?m - 1]")
    case (Some d')
    then have "d = d'" "sc = ?sc" using Suc.prems(3) by (simp_all add: Let_def del: find.simps)
    then show ?thesis using Some by (auto simp: find_Some_iff simp del: find.simps)
  next
    case None
    have "k \<noteq> 0"
    proof
      assume "k = 0"
      then have "int n = 17" using Suc.prems(1) by simp
      then have sc: "?sc = flog10 x - 16" by simp
      have "10 powi flog10 x = (10 :: rat) powi (flog10 x - 16) * 10 ^ 16"
        using power_int_add [of "10 :: rat" "flog10 x - 16" 16] by simp
      then have small: "10 powi ?sc \<le> x / 10 ^ 16" using flog10_le [OF assms(2)] by (simp add: sc)
      have "\<bar>x / 10 powi ?sc - of_int ?m\<bar> \<le> 1 / 2" by (rule rne_error)
      then have "\<bar>x / 10 powi ?sc - of_int ?m\<bar> * 10 powi ?sc \<le> 1 / 2 * 10 powi ?sc"
        by (rule mult_right_mono) simp
      moreover have "\<bar>x / 10 powi ?sc - of_int ?m\<bar> * 10 powi ?sc = \<bar>x - of_int ?m * 10 powi ?sc\<bar>"
        using abs_mult [of "x / 10 powi ?sc - of_int ?m" "10 powi ?sc"] by (simp add: algebra_simps)
      ultimately have "\<bar>of_int ?m * 10 powi ?sc - x\<bar> \<le> x / (2 * 10 ^ 16)"
        using small by (simp add: abs_minus_commute)
      then have "?ok ?m" by (rule fl_close [OF assms(1,2)])
      then show False using None by simp
    qed
    moreover have "shortest_digits k (Suc n) x = (d, sc)" using Suc.prems(3) None by (simp add: Let_def del: find.simps)
    ultimately show ?thesis using Suc.IH [of "Suc n"] Suc.prems(1) by simp
  qed
qed simp

section \<open>Decimal literals\<close>

text \<open>The parts of a number literal: integer digits, \<open>.\<close> with digits, exponent with digits.\<close>

definition frac_part :: "string \<Rightarrow> bool" where
  "frac_part fr \<longleftrightarrow> fr = [] \<or> (\<exists>f. fr = CHR ''.'' # f \<and> f \<noteq> [] \<and> list_all is_digit f)"

definition exp_part :: "string \<Rightarrow> bool" where
  "exp_part ex \<longleftrightarrow>
     ex = [] \<or> (\<exists>sg x. ex = CHR ''e'' # sg # x \<and> (sg = CHR ''-'' \<or> sg = CHR ''+'') \<and> x \<noteq> [] \<and> list_all is_digit x)"

definition int_part :: "string \<Rightarrow> bool" where
  "int_part i \<longleftrightarrow> i \<noteq> [] \<and> list_all is_digit i \<and> (i = ''0'' \<or> hd i \<noteq> CHR ''0'')"

fun exp_value :: "string \<Rightarrow> int" where
  "exp_value (e # sg # x) = (if sg = CHR ''-'' then - int (digits_value 0 x) else int (digits_value 0 x))"
| "exp_value _ = 0"

definition literal_value :: "string \<Rightarrow> string \<Rightarrow> string \<Rightarrow> rat" where
  "literal_value i fr ex =
     of_nat (digits_value 0 (i @ drop 1 fr)) / 10 ^ length (drop 1 fr) * 10 powi exp_value ex"

lemma digits_value_acc: "digits_value acc t = acc * 10 ^ length t + digits_value 0 t"
proof (induction t arbitrary: acc)
  case (Cons c t)
  show ?case using Cons [of "acc * 10 + digit_val c"] Cons [of "digit_val c"] by (simp add: algebra_simps)
qed simp

lemma digits_value_join: "digits_value 0 (s @ t) = digits_value 0 s * 10 ^ length t + digits_value 0 t"
  by (simp add: digits_value_append digits_value_acc [of "digits_value 0 s"])

lemma digits_value_zeros_only [simp]: "digits_value 0 (replicate z CHR ''0'') = 0"
  using digits_value_zeros [of z "[]"] by simp

lemma digit_lower [simp]: "is_digit c \<Longrightarrow> lower_char c = c"
  by (auto simp: lower_char_def is_digit_def)

lemma is_digit_e [simp]: "\<not> is_digit CHR ''e''"
  by (simp add: is_digit_def)

lemma parse_mantissa_literal:
  assumes "i \<noteq> []" "list_all is_digit i" "frac_part fr"
  shows "parse_mantissa (i @ fr) = Some (digits_value 0 (i @ drop 1 fr), length (drop 1 fr))"
proof -
  have nodot: "CHR ''.'' \<notin> set i" using assms(2) by (auto simp: list_all_iff)
  consider "fr = []" | f where "fr = CHR ''.'' # f" "f \<noteq> []" "list_all is_digit f"
    using assms(3) by (auto simp: frac_part_def)
  then show ?thesis
  proof cases
    case 1
    then show ?thesis using nodot assms
      by (simp add: parse_mantissa_def partition_on_def digits_acc_digits)
  next
    case 2
    have "length (filter is_digit f) = length f" using 2(3) by (simp add: list_all_iff)
    then show ?thesis using nodot assms 2
      by (simp add: parse_mantissa_def partition_on_key digits_acc_digits Let_def digits_value_join)
  qed
qed

lemma parse_exponent_literal:
  assumes "x \<noteq> []" "list_all is_digit x" "sg = CHR ''-'' \<or> sg = CHR ''+''"
  shows "parse_exponent (sg # x) = Some (exp_value (CHR ''e'' # sg # x))"
  using assms by (auto simp: parse_exponent_def digits_acc_digits)

lemma parse_literal:
  assumes "int_part i" "frac_part fr" "exp_part ex"
  shows "parse_decimal (i @ fr @ ex) = Some (literal_value i fr ex)"
proof -
  let ?noe = "\<lambda>c. lower_char c \<noteq> CHR ''e''"
  have i: "i \<noteq> []" "list_all is_digit i" using assms(1) by (auto simp: int_part_def)
  have dot: "lower_char CHR ''.'' = CHR ''.''" by code_simp
  have "lower_char c \<noteq> CHR ''e''" if "is_digit c" for c using that by auto
  then have dig: "list_all ?noe f" if "list_all is_digit f" for f by (rule list.pred_mono_strong [OF that])
  have "list_all ?noe (i @ fr)"
    using dig [OF i(2)] dig assms(2) dot by (auto simp: frac_part_def)
  then have noe: "\<forall>c \<in> set (i @ fr). ?noe c" by (simp only: list_all_iff)
  consider "ex = []" | sg x where "ex = CHR ''e'' # sg # x" "sg = CHR ''-'' \<or> sg = CHR ''+''" "x \<noteq> []" "list_all is_digit x"
    using assms(3) by (auto simp: exp_part_def)
  then show ?thesis
  proof cases
    case 1
    have tw: "takeWhile ?noe (i @ fr) = i @ fr" "dropWhile ?noe (i @ fr) = []"
      using noe by (simp_all only: takeWhile_eq_all_conv dropWhile_eq_Nil_conv)
    show ?thesis
      by (simp only: parse_decimal_def Let_def 1 append_Nil2 tw parse_mantissa_literal [OF i assms(2)] option.case
          prod.case list.case) (simp add: literal_value_def)
  next
    case 2
    have le: "lower_char CHR ''e'' = CHR ''e''" by code_simp
    have "takeWhile ?noe ((i @ fr) @ ex) = i @ fr" "dropWhile ?noe ((i @ fr) @ ex) = ex"
      using noe le 2(1) takeWhile_append2 [of "i @ fr" ?noe ex] dropWhile_append2 [of "i @ fr" ?noe ex]
      by (simp_all del: set_append)
    then show ?thesis
      using 2 parse_mantissa_literal [OF i assms(2)] parse_exponent_literal [OF 2(3,4,2)]
      by (simp add: parse_decimal_def literal_value_def)
  qed
qed

lemma py_float_literal:
  assumes "int_part i" "frac_part fr" "exp_part ex"
  shows "py_float (i @ fr @ ex) = finite_fl (literal_value i fr ex)"
    "py_float (CHR ''-'' # i @ fr @ ex) = finite_fl (- literal_value i fr ex)"
proof -
  obtain c cs where c: "i = c # cs" "is_digit c" using assms(1) by (cases i) (auto simp: int_part_def)
  have sp: "\<not> py_isspace CHR ''.''" "\<not> py_isspace CHR ''e''" "\<not> py_isspace CHR ''-''" "\<not> py_isspace CHR ''+''"
    by (simp_all add: py_isspace_def)
  have ns: "list_all (\<lambda>c. \<not> py_isspace c) (i @ fr @ ex)"
    using assms sp by (auto simp: int_part_def frac_part_def exp_part_def list_all_iff digit_not_space)
  have cs: "c \<noteq> CHR ''-''" "c \<noteq> CHR ''+''" "c \<noteq> CHR ''i''" "c \<noteq> CHR ''n''" "lower_char c = c"
    using c(2) by (auto simp: is_digit_def)
  then show "py_float (i @ fr @ ex) = finite_fl (literal_value i fr ex)"
    using strip_no_space [OF ns] parse_literal [OF assms] by (simp add: py_float_def c(1))
  have "list_all (\<lambda>c. \<not> py_isspace c) (CHR ''-'' # i @ fr @ ex)" using ns sp by simp
  then show "py_float (CHR ''-'' # i @ fr @ ex) = finite_fl (- literal_value i fr ex)"
    using strip_no_space [of "CHR ''-'' # i @ fr @ ex"] parse_literal [OF assms] cs by (simp add: py_float_def c(1))
qed

section \<open>\<open>repr\<close> reads back\<close>

text \<open>The parts of the text that \<open>repr_float\<close> builds from the digits \<open>d\<close> and their scale.\<close>

definition repr_parts :: "int \<Rightarrow> int \<Rightarrow> string \<times> string \<times> string" where
  "repr_parts d sc =
     (let all = str_int d; e = sc + int (length all) - 1; ds = rstrip_zeros all
      in if - 4 \<le> e \<and> e < 16
         then (if e < 0 then (''0'', CHR ''.'' # replicate (nat (- e - 1)) CHR ''0'' @ ds, [])
               else let k = nat e + 1
                    in if length ds \<le> k then (ds @ replicate (k - length ds) CHR ''0'', ''.0'', [])
                       else (take k ds, CHR ''.'' # drop k ds, []))
         else (take 1 ds, if length ds = 1 then [] else CHR ''.'' # drop 1 ds,
               CHR ''e'' # (if e < 0 then CHR ''-'' else CHR ''+'') # pad_zeros 2 (str_int \<bar>e\<bar>)))"

lemma repr_float_parts:
  assumes "x \<noteq> 0" "shortest_digits 17 1 \<bar>x\<bar> = (d, sc)" "repr_parts d sc = (i, fr, ex)"
  shows "repr_float x = (if x < 0 then ''-'' else []) @ i @ fr @ ex"
  using assms by (auto simp: repr_float_def repr_parts_def Let_def split: if_splits)

lemma rstrip_zeros_split: "\<exists>z. s = rstrip_zeros s @ replicate z CHR ''0''"
proof -
  let ?t = "takeWhile (\<lambda>c. c = CHR ''0'') (rev s)"
  have "\<forall>c \<in> set ?t. c = CHR ''0''" by (auto dest: set_takeWhileD)
  then have "?t = replicate (length ?t) CHR ''0''" by (simp only: replicate_length_same)
  moreover have "rev s = ?t @ dropWhile (\<lambda>c. c = CHR ''0'') (rev s)" by simp
  ultimately have "s = rstrip_zeros s @ rev (replicate (length ?t) CHR ''0'')"
    unfolding rstrip_zeros_def by (metis rev_append rev_rev_ident)
  then show ?thesis unfolding rev_replicate by blast
qed

lemma str_nat_hd: "0 < n \<Longrightarrow> hd (str_nat n) \<noteq> CHR ''0''"
proof (induction n rule: str_nat.induct)
  case (1 n)
  show ?case
  proof (cases "n < 10")
    case True
    then have "digit_val (digit_char n) = n" by simp
    then have "digit_char n \<noteq> CHR ''0''" using 1 by (auto simp: digit_val_def)
    then show ?thesis using True by (simp add: str_nat.simps [of n])
  next
    case False
    then show ?thesis using 1 by (simp add: str_nat.simps [of n])
  qed
qed

lemma powi_cancel:
  assumes "int n = - sc - int z"
  shows "(10 :: rat) ^ z * 10 powi sc = 1 / 10 ^ n"
proof -
  have "(10 :: rat) ^ n = 10 powi (- sc - int z)" using assms by (metis power_int_of_nat)
  moreover have "(10 :: rat) powi (sc + int z) * 10 powi (- sc - int z) = 1"
    by (simp flip: power_int_add)
  ultimately show ?thesis by (simp add: power_int_add field_simps)
qed

lemma repr_parts_value:
  assumes "0 < d" "repr_parts d sc = (i, fr, ex)"
  shows "int_part i \<and> frac_part fr \<and> exp_part ex \<and> (fr \<noteq> [] \<or> ex \<noteq> []) \<and>
    literal_value i fr ex = of_int d * 10 powi sc"
proof -
  let ?all = "str_nat (nat d)"
  let ?ds = "rstrip_zeros ?all"
  obtain z where z: "?all = ?ds @ replicate z CHR ''0''" using rstrip_zeros_split by blast
  have all: "str_int d = ?all" using assms(1) by (simp add: str_int_def)
  have dig: "list_all is_digit ?ds" using str_nat_digits [of "nat d"] by (subst (asm) z) simp
  have "nat d = digits_value 0 ?all" by simp
  also have "\<dots> = digits_value 0 ?ds * 10 ^ z" by (subst z) (simp add: digits_value_join)
  finally have d: "of_int d = (of_nat (digits_value 0 ?ds) :: rat) * 10 ^ z"
    using assms(1) by (metis of_int_of_nat_eq of_nat_mult of_nat_numeral of_nat_power zle_iff_zadd int_nat_eq less_imp_le)
  have ne: "?ds \<noteq> []"
  proof
    assume "?ds = []"
    then have "(of_int d :: rat) = 0" using d by simp
    then show False using assms(1) by simp
  qed
  have len: "length ?all = length ?ds + z" by (subst z) simp
  have hd: "hd ?ds \<noteq> CHR ''0''"
    using str_nat_hd [of "nat d"] assms(1) hd_append2 [OF ne, of "replicate z CHR ''0''", folded z] by simp
  define e where "e = sc + int (length ?all) - 1"
  note parts = assms(2) [unfolded repr_parts_def Let_def all, folded e_def]
  have pow: "(10 :: rat) powi (a + b) = 10 powi a * 10 powi b" for a b by (simp add: power_int_add)
  consider "- 4 \<le> e" "e < 0" | "0 \<le> e" "e < 16" "length ?ds \<le> nat e + 1" | "0 \<le> e" "e < 16" "nat e + 1 < length ?ds"
    | "e < - 4 \<or> 16 \<le> e" by linarith
  then show ?thesis
  proof cases
    case 1
    let ?f = "replicate (nat (- e - 1)) CHR ''0'' @ ?ds"
    have p: "i = ''0''" "fr = CHR ''.'' # ?f" "ex = []" using parts 1 by simp_all
    have "int (length ?f) = - sc - int z" using 1 len by (simp add: e_def)
    then have "(10 :: rat) ^ z * 10 powi sc = 1 / 10 ^ length ?f" by (rule powi_cancel)
    moreover have "digits_value 0 (CHR ''0'' # ?f) = digits_value 0 ?ds"
      using digits_value_zeros [of "Suc (nat (- e - 1))" ?ds] by simp
    moreover have "list_all is_digit (replicate (nat (- e - 1)) CHR ''0'')" by (simp add: list_all_iff)
    ultimately show ?thesis
      using dig ne by (simp add: p literal_value_def d int_part_def frac_part_def exp_part_def mult.assoc
          del: digits_value.simps)
  next
    case 2
    let ?k = "nat e + 1 - length ?ds"
    have p: "i = ?ds @ replicate ?k CHR ''0''" "fr = ''.0''" "ex = []" using parts 2 by simp_all
    have "int ?k = sc + int z" using 2 len by (simp add: e_def)
    then have "(10 :: rat) ^ ?k = 10 powi sc * 10 ^ z" using pow [of sc "int z"] by (metis power_int_of_nat)
    moreover have "digits_value 0 (i @ ''0'') = digits_value 0 ?ds * 10 ^ ?k * 10"
      by (simp add: p digits_value_join digit_val_def)
    ultimately show ?thesis
      using dig ne hd by (simp add: p(2,3) literal_value_def d frac_part_def exp_part_def) (auto simp: p int_part_def list_all_iff)
  next
    case 3
    let ?k = "nat e + 1"
    have p: "i = take ?k ?ds" "fr = CHR ''.'' # drop ?k ?ds" "ex = []" using parts 3 by simp_all
    have "int (length ?ds - ?k) = - sc - int z" using 3 len by (simp add: e_def)
    then have "(10 :: rat) ^ z * 10 powi sc = 1 / 10 ^ (length ?ds - ?k)" by (rule powi_cancel)
    moreover have "list_all is_digit (take ?k ?ds)" "list_all is_digit (drop ?k ?ds)"
      using dig by (auto simp: list_all_iff dest: in_set_takeD in_set_dropD)
    ultimately show ?thesis
      using ne hd 3 by (simp add: p literal_value_def d int_part_def frac_part_def exp_part_def mult.assoc)
  next
    case 4
    let ?fr = "if length ?ds = 1 then [] else CHR ''.'' # drop 1 ?ds" and ?x = "pad_zeros 2 (str_int \<bar>e\<bar>)"
    have p: "i = take 1 ?ds" "fr = ?fr" "ex = CHR ''e'' # (if e < 0 then CHR ''-'' else CHR ''+'') # ?x"
      using parts 4 by auto
    have x: "list_all is_digit ?x" "?x \<noteq> []" "digits_value 0 ?x = nat \<bar>e\<bar>"
      using str_nat_digits [of "nat \<bar>e\<bar>"] by (auto simp: pad_zeros_def str_int_def digits_value_zeros list_all_iff)
    then have ev: "exp_value ex = e" by (simp add: p(3))
    have "drop 1 ?fr = drop 1 ?ds" using ne by (cases ?ds) auto
    then have whole: "i @ drop 1 fr = ?ds" "length (drop 1 fr) = length ?ds - 1" using p(1,2) by simp_all
    have "e = sc + int z + int (length ?ds - 1)" using len ne by (simp add: e_def of_nat_diff Suc_leI)
    then have "(10 :: rat) powi e = 10 powi sc * 10 ^ z * 10 ^ (length ?ds - 1)"
      using pow [of "sc + int z" "int (length ?ds - 1)"] pow [of sc "int z"] by simp
    then have v: "literal_value i fr ex = of_int d * 10 powi sc"
      unfolding literal_value_def whole ev d by simp
    have "list_all is_digit (take 1 ?ds)" "list_all is_digit (drop 1 ?ds)"
      using dig by (auto simp: list_all_iff dest: in_set_takeD in_set_dropD)
    moreover have "length ?ds \<noteq> 1 \<Longrightarrow> drop 1 ?ds \<noteq> []" using ne by (cases ?ds) auto
    ultimately show ?thesis
      using v ne hd x(1,2) by (simp add: p int_part_def frac_part_def exp_part_def hd_take)
  qed
qed

text \<open>A finite double: what a float of the programs is.\<close>

definition finite_double :: "rat \<Rightarrow> bool" where
  "finite_double x \<longleftrightarrow> is_double x \<and> \<bar>x\<bar> < 2 ^ 1024"

lemma finite_fl_double: "fl y = x \<Longrightarrow> \<bar>x\<bar> < 2 ^ 1024 \<Longrightarrow> finite_fl y = Inr x"
  by (simp add: finite_fl_def Let_def not_le)

lemma is_double_minus:
  assumes "is_double x"
  shows "is_double (- x)"
proof -
  obtain m e where "x = of_int m * 2 powi e" "\<bar>m\<bar> < 2 ^ 53" "- 1074 \<le> e" using assms by (auto simp: is_double_def)
  then have "- x = of_int (- m) * 2 powi e \<and> \<bar>- m\<bar> < 2 ^ 53 \<and> - 1074 \<le> e" by simp
  then show ?thesis unfolding is_double_def by blast
qed

lemma rne_minus: "rne (- x) = - rne x"
proof (cases "of_int \<lfloor>x\<rfloor> = x")
  case True
  then obtain n where "x = of_int n" by metis
  then show ?thesis using rne_of_int [of n] rne_of_int [of "- n"] by simp
next
  case False
  then have f: "\<lfloor>- x\<rfloor> = - \<lfloor>x\<rfloor> - 1" by linarith
  show ?thesis unfolding rne_def Let_def f by (auto simp: field_simps)
qed

lemma fl_minus: "fl (- x) = - fl x"
  by (simp add: fl_def fexp_def rne_minus flip: minus_divide_left)

lemma shortest_digits_value:
  assumes "finite_double x" "x \<noteq> 0" "shortest_digits 17 1 \<bar>x\<bar> = (d, sc)"
  shows "fl (of_int d * 10 powi sc) = \<bar>x\<bar>"
proof -
  have "is_double \<bar>x\<bar>" using assms(1) is_double_minus by (auto simp: finite_double_def abs_if)
  then show ?thesis using shortest_digits_found [OF _ _ _ _ assms(3)] assms(2) by simp
qed

lemma shortest_digits_pos:
  assumes "finite_double x" "x \<noteq> 0" "shortest_digits 17 1 \<bar>x\<bar> = (d, sc)"
  shows "0 < d"
proof -
  have "0 < of_int d * (10 :: rat) powi sc"
    using shortest_digits_value [OF assms] assms(2) fl_mono [of "of_int d * 10 powi sc" 0] by (auto simp: not_less [symmetric])
  moreover have "0 < (10 :: rat) powi sc" by simp
  ultimately show ?thesis by (auto simp: zero_less_mult_iff)
qed

theorem py_float_repr:
  assumes "finite_double x"
  shows "py_float (repr_float x) = Inr x"
proof (cases "x = 0")
  case True
  have "py_float ''0.0'' = Inr 0" by code_simp
  then show ?thesis using True by (simp add: repr_float_def)
next
  case False
  obtain d sc where sd: "shortest_digits 17 1 \<bar>x\<bar> = (d, sc)" by (cases "shortest_digits 17 1 \<bar>x\<bar>")
  obtain i fr ex where parts: "repr_parts d sc = (i, fr, ex)" by (cases "repr_parts d sc")
  note v = shortest_digits_value [OF assms False sd] and d = shortest_digits_pos [OF assms False sd]
  note parts_ok = repr_parts_value [OF d parts]
  have "finite_fl (of_int d * 10 powi sc) = Inr \<bar>x\<bar>" "finite_fl (- (of_int d * 10 powi sc)) = Inr (- \<bar>x\<bar>)"
    using assms v by (auto intro!: finite_fl_double simp: finite_double_def fl_minus)
  then show ?thesis
    using py_float_literal [of i fr ex] parts_ok repr_float_parts [OF False sd parts] by auto
qed

end
