(* ===== verification/PyJson.thy ===== *)
theory PyJson
  imports PyRepr
begin

text \<open>
  The module \<open>json\<close> of the standard library, through which the UI server talks to browsers:
  \<open>json_dumps\<close> with its default separators and ASCII escapes, \<open>json_loads\<close> as a recursive descent
  over the text, and \<open>py_str\<close>, which is \<open>str\<close> of a decoded value. A text that is not JSON raises
  ValueError (JSONDecodeError is one). The literals \<open>NaN\<close> and \<open>Infinity\<close>, which the decoder accepts,
  are \<open>NonFinite\<close>; the limit on nesting is not modelled. A character outside ASCII is one of the
  upper half, as everywhere: an escape of a code point that has no character of its own here
  becomes \<open>CHR 0x80\<close>.
\<close>

datatype json =
    JStr string
  | JInt int
  | JFloat rat
  | JBool bool
  | JNull
  | JArr "json list"
  | JObj "(string \<times> json) list"

type_synonym json_obj = "(string, json) dict"

section \<open>\<open>str\<close> and \<open>repr\<close>\<close>

definition hex_char :: "nat \<Rightarrow> char" where
  "hex_char d = (if d < 10 then char_of (48 + d) else char_of (87 + d))"

definition quote_char :: "string \<Rightarrow> char" where
  "quote_char s = (if CHR 0x27 \<in> set s \<and> CHR 0x22 \<notin> set s then CHR 0x22 else CHR 0x27)"

definition repr_char :: "char \<Rightarrow> char \<Rightarrow> string" where
  "repr_char q c =
     (if c = q \<or> c = CHR 0x5C then [CHR 0x5C, c]
      else if c = CHR 0x09 then [CHR 0x5C, CHR ''t'']
      else if c = CHR 0x0A then [CHR 0x5C, CHR ''n'']
      else if c = CHR 0x0D then [CHR 0x5C, CHR ''r'']
      else if of_char c < (32 :: nat) \<or> c = CHR 0x7F
        then [CHR 0x5C, CHR ''x'', hex_char (of_char c div 16), hex_char (of_char c mod 16)]
      else [c])"

definition repr_str :: "string \<Rightarrow> string" where
  "repr_str s = (let q = quote_char s in [q] @ concat (map (repr_char q) s) @ [q])"

fun py_repr :: "json \<Rightarrow> string" where
  "py_repr (JStr s) = repr_str s"
| "py_repr (JInt i) = str_int i"
| "py_repr (JFloat x) = repr_float x"
| "py_repr (JBool b) = (if b then ''True'' else ''False'')"
| "py_repr JNull = ''None''"
| "py_repr (JArr vs) = ''['' @ join '', '' (map py_repr vs) @ '']''"
| "py_repr (JObj kvs) = ''{'' @ join '', '' (map (\<lambda>(k, v). repr_str k @ '': '' @ py_repr v) kvs) @ ''}''"

fun py_str :: "json \<Rightarrow> string" where
  "py_str (JStr s) = s"
| "py_str v = py_repr v"

section \<open>Encoding\<close>

text \<open>The code point of a character, and the character of a code point.\<close>

definition code_of :: "char \<Rightarrow> nat" where
  "code_of c = (if c = CHR 0xFF then 0xFFFD else of_char c)"

definition char_of_code :: "nat \<Rightarrow> char" where
  "char_of_code n = (if n < 255 then char_of n else if n = 0xFFFD then CHR 0xFF else CHR 0x80)"

definition hex4 :: "nat \<Rightarrow> string" where
  "hex4 n = [hex_char (n div 4096 mod 16), hex_char (n div 256 mod 16), hex_char (n div 16 mod 16), hex_char (n mod 16)]"

definition short_escapes :: "(char \<times> char) list" where
  "short_escapes =
     [(CHR 0x22, CHR 0x22), (CHR 0x5C, CHR 0x5C), (CHR 0x0A, CHR ''n''), (CHR 0x0D, CHR ''r''),
      (CHR 0x09, CHR ''t''), (CHR 0x0C, CHR ''f''), (CHR 0x08, CHR ''b'')]"

definition escape_char :: "char \<Rightarrow> string" where
  "escape_char c =
     (case map_of short_escapes c of
        Some e \<Rightarrow> [CHR 0x5C, e]
      | None \<Rightarrow> if 32 \<le> (of_char c :: nat) \<and> of_char c \<le> (126 :: nat) then [c]
                else CHR 0x5C # CHR ''u'' # hex4 (code_of c))"

definition dumps_str :: "string \<Rightarrow> string" where
  "dumps_str s = [CHR 0x22] @ concat (map escape_char s) @ [CHR 0x22]"

fun json_dumps :: "json \<Rightarrow> string" where
  "json_dumps (JStr s) = dumps_str s"
| "json_dumps (JInt i) = str_int i"
| "json_dumps (JFloat x) = repr_float x"
| "json_dumps (JBool b) = (if b then ''true'' else ''false'')"
| "json_dumps JNull = ''null''"
| "json_dumps (JArr vs) = ''['' @ join '', '' (map json_dumps vs) @ '']''"
| "json_dumps (JObj kvs) = ''{'' @ join '', '' (map (\<lambda>(k, v). dumps_str k @ '': '' @ json_dumps v) kvs) @ ''}''"

section \<open>Decoding\<close>

definition hex_val :: "char \<Rightarrow> nat option" where
  "hex_val c =
     (let n = of_char c :: nat
      in if 48 \<le> n \<and> n \<le> 57 then Some (n - 48)
         else if 97 \<le> n \<and> n \<le> 102 then Some (n - 87)
         else if 65 \<le> n \<and> n \<le> 70 then Some (n - 55)
         else None)"

definition hex4_val :: "string \<Rightarrow> nat option" where
  "hex4_val s =
     (case map hex_val s of
        [Some a, Some b, Some c, Some d] \<Rightarrow> Some (((a * 16 + b) * 16 + c) * 16 + d)
      | _ \<Rightarrow> None)"

definition long_unescapes :: "(char \<times> char) list" where
  "long_unescapes =
     [(CHR 0x22, CHR 0x22), (CHR 0x5C, CHR 0x5C), (CHR ''/'', CHR ''/''), (CHR ''b'', CHR 0x08),
      (CHR ''f'', CHR 0x0C), (CHR ''n'', CHR 0x0A), (CHR ''r'', CHR 0x0D), (CHR ''t'', CHR 0x09)]"

text \<open>The character an escape stands for and how many characters follow the backslash.\<close>

definition low_surrogate :: "string \<Rightarrow> bool" where
  "low_surrogate s \<longleftrightarrow>
     take 2 s = [CHR 0x5C, CHR ''u''] \<and>
     (case hex4_val (take 4 (drop 2 s)) of Some v \<Rightarrow> 0xDC00 \<le> v \<and> v \<le> 0xDFFF | None \<Rightarrow> False)"

definition unescape :: "string \<Rightarrow> (char \<times> nat) option" where
  "unescape s =
     (case s of
        [] \<Rightarrow> None
      | e # r \<Rightarrow>
          if e = CHR ''u''
          then (case hex4_val (take 4 r) of
                  None \<Rightarrow> None
                | Some v \<Rightarrow> if 0xD800 \<le> v \<and> v \<le> 0xDBFF \<and> low_surrogate (drop 4 r) then Some (CHR 0x80, 11)
                            else Some (char_of_code v, 5))
          else map_option (\<lambda>c. (c, 1)) (map_of long_unescapes e))"

text \<open>The rest of a string after its opening quote.\<close>

fun scan_string :: "string \<Rightarrow> (string \<times> string) res" where
  "scan_string [] = Inl ValueError"
| "scan_string (c # cs) =
     (if c = CHR 0x22 then Inr ([], cs)
      else if c = CHR 0x5C
      then (case unescape cs of
              None \<Rightarrow> Inl ValueError
            | Some (x, n) \<Rightarrow> res_bind (scan_string (drop n cs)) (\<lambda>(t, r). Inr (x # t, r)))
      else if of_char c < (32 :: nat) then Inl ValueError
      else res_bind (scan_string cs) (\<lambda>(t, r). Inr (c # t, r)))"

definition scan_int :: "string \<Rightarrow> string" where
  "scan_int s =
     (case takeWhile is_digit s of [] \<Rightarrow> [] | d # ds \<Rightarrow> if d = CHR ''0'' then [d] else d # ds)"

definition scan_frac :: "string \<Rightarrow> string" where
  "scan_frac s =
     (case s of
        [] \<Rightarrow> []
      | c # r \<Rightarrow> if c = CHR ''.'' \<and> takeWhile is_digit r \<noteq> [] then c # takeWhile is_digit r else [])"

definition scan_exp :: "string \<Rightarrow> string" where
  "scan_exp s =
     (case s of
        [] \<Rightarrow> []
      | c # r \<Rightarrow>
          (let sg = (if r \<noteq> [] \<and> (hd r = CHR ''-'' \<or> hd r = CHR ''+'') then [hd r] else []);
               x = takeWhile is_digit (drop (length sg) r)
           in if (c = CHR ''e'' \<or> c = CHR ''E'') \<and> x \<noteq> [] then c # sg @ x else []))"

text \<open>A number at the head of the text: an \<open>int\<close> without fraction and exponent, else a \<open>float\<close>.\<close>

definition scan_number :: "string \<Rightarrow> (json \<times> string) res" where
  "scan_number s =
     (let sg = (if s \<noteq> [] \<and> hd s = CHR ''-'' then ''-'' else []);
          s1 = drop (length sg) s; i = scan_int s1;
          s2 = drop (length i) s1; fr = scan_frac s2;
          s3 = drop (length fr) s2; ex = scan_exp s3
      in if i = [] then (if prefix ''-Infinity'' s \<or> prefix ''Infinity'' s \<or> prefix ''NaN'' s then Inl NonFinite
                         else Inl ValueError)
         else if fr = [] \<and> ex = [] then res_bind (py_int (sg @ i)) (\<lambda>n. Inr (JInt n, s3))
         else res_bind (py_float (sg @ i @ fr @ ex)) (\<lambda>x. Inr (JFloat x, drop (length ex) s3)))"

definition is_ws :: "char \<Rightarrow> bool" where
  "is_ws c \<longleftrightarrow> c \<in> set [CHR '' '', CHR 0x09, CHR 0x0A, CHR 0x0D]"

abbreviation skip_ws :: "string \<Rightarrow> string" where
  "skip_ws s \<equiv> dropWhile is_ws s"

definition parse_const :: "string \<Rightarrow> json \<Rightarrow> string \<Rightarrow> (json \<times> string) res" where
  "parse_const w v s = (if prefix w s then Inr (v, drop (length w) s) else Inl ValueError)"

text \<open>The decoder; the first argument bounds the number of nested calls.\<close>

fun parse_value :: "nat \<Rightarrow> string \<Rightarrow> (json \<times> string) res"
and parse_elems :: "nat \<Rightarrow> string \<Rightarrow> (json list \<times> string) res"
and parse_members :: "nat \<Rightarrow> string \<Rightarrow> ((string \<times> json) list \<times> string) res" where
  "parse_value 0 s = Inl ValueError"
| "parse_value (Suc n) s =
     (case s of
        [] \<Rightarrow> Inl ValueError
      | c # cs \<Rightarrow>
          if c = CHR 0x22 then res_bind (scan_string cs) (\<lambda>(t, r). Inr (JStr t, r))
          else if c = CHR 0x7B then
            (case skip_ws cs of
               [] \<Rightarrow> Inl ValueError
             | d # ds \<Rightarrow> if d = CHR 0x7D then Inr (JObj [], ds)
                         else res_bind (parse_members n (d # ds)) (\<lambda>(kvs, r). Inr (JObj (dict_of kvs), r)))
          else if c = CHR 0x5B then
            (case skip_ws cs of
               [] \<Rightarrow> Inl ValueError
             | d # ds \<Rightarrow> if d = CHR 0x5D then Inr (JArr [], ds)
                         else res_bind (parse_elems n (d # ds)) (\<lambda>(vs, r). Inr (JArr vs, r)))
          else if c = CHR ''n'' then parse_const ''null'' JNull s
          else if c = CHR ''t'' then parse_const ''true'' (JBool True) s
          else if c = CHR ''f'' then parse_const ''false'' (JBool False) s
          else scan_number s)"
| "parse_elems 0 s = Inl ValueError"
| "parse_elems (Suc n) s =
     res_bind (parse_value n s) (\<lambda>(v, r).
       case skip_ws r of
         [] \<Rightarrow> Inl ValueError
       | d # ds \<Rightarrow>
           if d = CHR 0x5D then Inr ([v], ds)
           else if d = CHR '','' then res_bind (parse_elems n (skip_ws ds)) (\<lambda>(vs, r'). Inr (v # vs, r'))
           else Inl ValueError)"
| "parse_members 0 s = Inl ValueError"
| "parse_members (Suc n) s =
     (case s of
        [] \<Rightarrow> Inl ValueError
      | c # cs \<Rightarrow>
          if c \<noteq> CHR 0x22 then Inl ValueError
          else res_bind (scan_string cs) (\<lambda>(k, r).
            case skip_ws r of
              [] \<Rightarrow> Inl ValueError
            | d # ds \<Rightarrow>
                if d \<noteq> CHR '':'' then Inl ValueError
                else res_bind (parse_value n (skip_ws ds)) (\<lambda>(v, r).
                  case skip_ws r of
                    [] \<Rightarrow> Inl ValueError
                  | d # ds \<Rightarrow>
                      if d = CHR 0x7D then Inr ([(k, v)], ds)
                      else if d = CHR '','' then res_bind (parse_members n (skip_ws ds)) (\<lambda>(kvs, r'). Inr ((k, v) # kvs, r'))
                      else Inl ValueError)))"

definition json_loads :: "string \<Rightarrow> json res" where
  "json_loads s =
     res_bind (parse_value (2 * length s + 2) (skip_ws s)) (\<lambda>(v, r).
       if skip_ws r = [] then Inr v else Inl ValueError)"

section \<open>Decoding what was encoded\<close>

lemma hex_val_char: "d < 16 \<Longrightarrow> hex_val (hex_char d) = Some d"
  by (auto simp: hex_val_def hex_char_def Let_def of_char_of take_bit_eq_mod)

lemma hex4_val_hex4: "n < 65536 \<Longrightarrow> hex4_val (hex4 n) = Some n"
proof -
  assume "n < 65536"
  moreover have "((n div 4096 mod 16 * 16 + n div 256 mod 16) * 16 + n div 16 mod 16) * 16 + n mod 16 = n mod 65536"
    by (simp add: mod_mult2_eq [of n 16 4096, simplified] mod_mult2_eq [of "n div 16" 16 256, simplified]
        mod_mult2_eq [of "n div 256" 16 16, simplified] div_mult2_eq [symmetric] algebra_simps)
  ultimately show ?thesis by (simp add: hex4_val_def hex4_def hex_val_char)
qed

lemma code_of_bound: "code_of c < 256 \<or> code_of c = 0xFFFD"
  using nat_of_char_less_256 [of c] by (auto simp: code_of_def)

lemma char_of_code_of [simp]: "char_of_code (code_of c) = c"
proof (cases "c = CHR 0xFF")
  case False
  have "(of_char c :: nat) \<noteq> 255"
  proof
    assume "(of_char c :: nat) = 255"
    then have "char_of (255 :: nat) = c" by (metis char_of_char)
    moreover have "char_of (255 :: nat) = CHR 0xFF" by code_simp
    ultimately show False using False by simp
  qed
  then have "(of_char c :: nat) < 255" using nat_of_char_less_256 [of c] by linarith
  then show ?thesis using False by (simp add: char_of_code_def code_of_def)
qed (simp add: char_of_code_def code_of_def)

lemma scan_escape:
  "scan_string (escape_char c @ rest) = res_bind (scan_string rest) (\<lambda>(t, r). Inr (c # t, r))"
proof (cases "map_of short_escapes c")
  case (Some e)
  then show ?thesis
    by (auto simp: escape_char_def short_escapes_def unescape_def long_unescapes_def split: if_splits)
next
  case None
  then have c: "c \<noteq> CHR 0x22" "c \<noteq> CHR 0x5C" by (auto simp: short_escapes_def split: if_splits)
  show ?thesis
  proof (cases "32 \<le> (of_char c :: nat) \<and> of_char c \<le> (126 :: nat)")
    case True
    then show ?thesis using None c by (simp add: escape_char_def)
  next
    case False
    have take: "take 4 (hex4 n @ rest) = hex4 n" "drop 4 (hex4 n @ rest) = rest" for n by (simp_all add: hex4_def)
    have "hex4_val (hex4 (code_of c)) = Some (code_of c)" using code_of_bound [of c] by (intro hex4_val_hex4) auto
    moreover have "\<not> (0xD800 \<le> code_of c \<and> code_of c \<le> 0xDBFF)" using code_of_bound [of c] by auto
    ultimately have "unescape (CHR ''u'' # hex4 (code_of c) @ rest) = Some (c, 5)"
      by (auto simp: unescape_def take simp del: take_append drop_append)
    then show ?thesis using False None c
      by (simp add: escape_char_def) (simp add: hex4_def)
  qed
qed

lemma scan_dumps_str: "scan_string (concat (map escape_char s) @ CHR 0x22 # r) = Inr (s, r)"
  by (induction s) (simp_all add: scan_escape)

text \<open>What follows a value in the text of a larger one.\<close>

definition delimited :: "string \<Rightarrow> bool" where
  "delimited rest \<longleftrightarrow> rest = [] \<or> hd rest \<in> set [CHR '','', CHR 0x5D, CHR 0x7D]"

lemma delimited_not_digit: "delimited rest \<Longrightarrow> takeWhile is_digit rest = []"
  by (cases rest) (auto simp: delimited_def is_digit_def)

lemma takeWhile_digits: "list_all is_digit i \<Longrightarrow> takeWhile is_digit (i @ rest) = i @ takeWhile is_digit rest"
  by (simp add: list_all_iff takeWhile_append2)

lemma not_digit_parts:
  assumes "frac_part fr" "exp_part ex" "delimited rest"
  shows "takeWhile is_digit (fr @ ex @ rest) = []" "takeWhile is_digit (ex @ rest) = []"
  using assms delimited_not_digit [OF assms(3)] by (auto simp: frac_part_def exp_part_def is_digit_def)

lemma scan_int_part:
  assumes "int_part i" "takeWhile is_digit rest = []"
  shows "scan_int (i @ rest) = i"
proof -
  have "takeWhile is_digit (i @ rest) = i" using assms takeWhile_digits by (simp add: int_part_def)
  then show ?thesis using assms(1) by (auto simp: scan_int_def int_part_def split: list.split)
qed

lemma scan_frac_part:
  assumes "frac_part fr" "exp_part ex" "delimited rest"
  shows "scan_frac (fr @ ex @ rest) = fr"
proof (cases fr)
  case Nil
  then show ?thesis using assms(2,3)
    by (cases rest) (auto simp: scan_frac_def exp_part_def delimited_def)
next
  case (Cons c f)
  then have f: "c = CHR ''.''" "f \<noteq> []" "list_all is_digit f" using assms(1) by (auto simp: frac_part_def)
  then show ?thesis using Cons takeWhile_digits [OF f(3)] not_digit_parts(2) [OF assms] by (simp add: scan_frac_def)
qed

lemma scan_exp_part:
  assumes "exp_part ex" "delimited rest"
  shows "scan_exp (ex @ rest) = ex"
proof (cases "ex = []")
  case True
  then show ?thesis using assms(2) by (cases rest) (auto simp: scan_exp_def delimited_def Let_def)
next
  case False
  then obtain sg x where ex: "ex = CHR ''e'' # sg # x" "sg = CHR ''-'' \<or> sg = CHR ''+''" "x \<noteq> []" "list_all is_digit x"
    using assms(1) by (auto simp: exp_part_def)
  then show ?thesis
    using takeWhile_digits [OF ex(4)] delimited_not_digit [OF assms(2)] by (auto simp: scan_exp_def Let_def)
qed

lemma scan_literal:
  assumes "int_part i" "frac_part fr" "exp_part ex" "delimited rest" "sg = [] \<or> sg = ''-''"
  shows "scan_number (sg @ i @ fr @ ex @ rest) =
    (if fr = [] \<and> ex = [] then res_bind (py_int (sg @ i)) (\<lambda>n. Inr (JInt n, rest))
     else res_bind (py_float (sg @ i @ fr @ ex)) (\<lambda>x. Inr (JFloat x, rest)))"
proof -
  obtain c cs where i: "i = c # cs" "is_digit c" using assms(1) by (cases i) (auto simp: int_part_def)
  have "c \<noteq> CHR ''-''" using i(2) by auto
  then have sg: "(if sg @ i @ fr @ ex @ rest \<noteq> [] \<and> hd (sg @ i @ fr @ ex @ rest) = CHR ''-'' then ''-'' else []) = sg"
    using assms(5) i(1) by auto
  have i0: "i \<noteq> []" by (simp add: i(1))
  note digs = not_digit_parts [OF assms(2-4)]
  have cut: "drop (length a) (a @ b) = b" for a b :: string by simp
  show ?thesis
    unfolding scan_number_def Let_def sg
    by (simp only: cut scan_int_part [OF assms(1) digs(1)] scan_frac_part [OF assms(2-4)]
        scan_exp_part [OF assms(3,4)] i0 if_False) simp
qed

lemma scan_str_int:
  assumes "delimited rest"
  shows "scan_number (str_int i @ rest) = Inr (JInt i, rest)"
proof -
  have "str_nat 0 = ''0''" by code_simp
  then have nat: "int_part (str_nat n)" for n
    using str_nat_hd [of n] str_nat_digits [of n] by (cases "n = 0") (simp_all add: int_part_def)
  have nil: "frac_part []" "exp_part []" by (simp_all add: frac_part_def exp_part_def)
  show ?thesis
  proof (cases "i < 0")
    case True
    then show ?thesis
      using scan_literal [OF nat [of "nat (- i)"] nil assms, of "''-''"] py_int_str_int [of i] by (simp add: str_int_def)
  next
    case False
    then show ?thesis
      using scan_literal [OF nat [of "nat i"] nil assms, of "[]"] py_int_str_int [of i] by (simp add: str_int_def)
  qed
qed

lemma repr_float_literal:
  "finite_double x \<Longrightarrow> \<exists>sg i fr ex. repr_float x = sg @ i @ fr @ ex \<and> (sg = [] \<or> sg = ''-'') \<and>
     int_part i \<and> frac_part fr \<and> exp_part ex \<and> (fr \<noteq> [] \<or> ex \<noteq> [])"
proof (cases "x = 0")
  case True
  moreover have "int_part ''0''" "frac_part ''.0''" "exp_part []" by (simp_all add: int_part_def frac_part_def exp_part_def)
  ultimately show ?thesis
    by (intro exI [of _ "[]"] exI [of _ "''0''"] exI [of _ "''.0''"]) (simp add: repr_float_def)
next
  case False
  assume fd: "finite_double x"
  obtain d sc where sd: "shortest_digits 17 1 \<bar>x\<bar> = (d, sc)" by (cases "shortest_digits 17 1 \<bar>x\<bar>")
  obtain i fr ex where parts: "repr_parts d sc = (i, fr, ex)" by (cases "repr_parts d sc")
  show ?thesis
    using repr_float_parts [OF False sd parts] repr_parts_value [OF shortest_digits_pos [OF fd False sd] parts]
    by (intro exI [of _ "if x < 0 then ''-'' else []"] exI [of _ i] exI [of _ fr] exI [of _ ex]) simp
qed

lemma scan_repr_float:
  assumes "finite_double x" "delimited rest"
  shows "scan_number (repr_float x @ rest) = Inr (JFloat x, rest)"
proof -
  obtain sg i fr ex where r: "repr_float x = sg @ i @ fr @ ex" "sg = [] \<or> sg = ''-''" "int_part i" "frac_part fr"
      "exp_part ex" "fr \<noteq> [] \<or> ex \<noteq> []" using repr_float_literal [OF assms(1)] by blast
  then show ?thesis
    using scan_literal [OF r(3-5) assms(2) r(2)] py_float_repr [OF assms(1)] by auto
qed

text \<open>Values the encoder can write: finite floats, and dictionaries with distinct keys.\<close>

fun json_ok :: "json \<Rightarrow> bool" where
  "json_ok (JFloat x) = finite_double x"
| "json_ok (JArr vs) = list_all json_ok vs"
| "json_ok (JObj kvs) = (distinct (map fst kvs) \<and> list_all (\<lambda>(_, v). json_ok v) kvs)"
| "json_ok _ = True"

lemma join_Cons: "join sep (s # ts) = s @ (if ts = [] then [] else sep @ join sep ts)"
  by (cases ts) simp_all

lemma numeral_start: "c \<in> set (take 1 (str_int i)) \<union> (if finite_double x then set (take 1 (repr_float x)) else {}) \<Longrightarrow>
  is_digit c \<or> c = CHR ''-''"
proof -
  assume c: "c \<in> set (take 1 (str_int i)) \<union> (if finite_double x then set (take 1 (repr_float x)) else {})"
  have dig: "is_digit d" if "d \<in> set (take 1 s)" "list_all is_digit s" for d s
    using that by (auto simp: list_all_iff dest: in_set_takeD)
  consider "c \<in> set (take 1 (str_int i))" | "finite_double x" "c \<in> set (take 1 (repr_float x))"
    using c by (auto split: if_splits)
  then show ?thesis
  proof cases
    case 1
    then show ?thesis using dig str_nat_digits by (auto simp: str_int_def split: if_splits)
  next
    case 2
    then obtain sg j fr ex where "repr_float x = sg @ j @ fr @ ex" "sg = [] \<or> sg = ''-''" "int_part j"
      using repr_float_literal by blast
    then show ?thesis using 2(2) dig [of c j] by (cases j) (auto simp: int_part_def)
  qed
qed

definition value_start :: "char \<Rightarrow> bool" where
  "value_start c \<longleftrightarrow>
     is_digit c \<or> c \<in> set [CHR ''-'', CHR 0x22, CHR 0x7B, CHR 0x5B, CHR ''n'', CHR ''t'', CHR ''f'']"

lemma json_dumps_start:
  assumes "json_ok v"
  shows "\<exists>c cs. json_dumps v = c # cs \<and> value_start c"
proof (cases v)
  case (JInt i)
  have "str_int i \<noteq> []" by (simp add: str_int_def)
  then show ?thesis using JInt numeral_start [of "hd (str_int i)" i 0]
    by (cases "str_int i") (auto simp: value_start_def)
next
  case (JFloat x)
  then have "finite_double x" using assms by simp
  then obtain sg j fr ex where "repr_float x = sg @ j @ fr @ ex" "int_part j" using repr_float_literal by blast
  then have "repr_float x \<noteq> []" by (auto simp: int_part_def)
  then show ?thesis using JFloat \<open>finite_double x\<close> numeral_start [of "hd (repr_float x)" 0 x]
    by (cases "repr_float x") (auto simp: value_start_def)
qed (auto simp: dumps_str_def value_start_def)

lemma skip_ws_dumps: "json_ok v \<Longrightarrow> skip_ws (json_dumps v @ rest) = json_dumps v @ rest"
  using json_dumps_start [of v] by (auto simp: value_start_def is_ws_def is_digit_def)

lemma parse_number_value:
  assumes "c # cs = s" "is_digit c \<or> c = CHR ''-''"
  shows "parse_value (Suc n) s = scan_number s"
proof -
  have "c \<notin> set [CHR 0x22, CHR 0x7B, CHR 0x5B, CHR ''n'', CHR ''t'', CHR ''f'']" using assms(2) by (auto simp: is_digit_def)
  then show ?thesis by (simp add: assms(1) [symmetric])
qed

lemma parse_member_step:
  assumes "parse_value j t = Inr (u, d # r)" "skip_ws t = t" "\<not> is_ws d"
  shows "parse_members (Suc j) (dumps_str key @ '': '' @ t) =
    (if d = CHR 0x7D then Inr ([(key, u)], r)
     else if d = CHR '','' then res_bind (parse_members j (skip_ws r)) (\<lambda>(kvs, r'). Inr ((key, u) # kvs, r'))
     else Inl ValueError)"
proof -
  have "dumps_str key @ '': '' @ t = CHR 0x22 # concat (map escape_char key) @ CHR 0x22 # CHR '':'' # CHR '' '' # t"
    by (simp add: dumps_str_def)
  moreover have "\<not> is_ws CHR '':''" "is_ws CHR '' ''" by (simp_all add: is_ws_def)
  ultimately show ?thesis by (simp add: scan_dumps_str assms)
qed

text \<open>The text of a value, followed by anything that can follow it, is read as that value.\<close>

lemma parse_dumps:
  assumes "json_ok v" "delimited rest" "2 * length (json_dumps v) \<le> n"
  shows "parse_value n (json_dumps v @ rest) = Inr (v, rest)"
  using assms
proof (induction v arbitrary: rest n)
  case (JStr s)
  then obtain m where "n = Suc m" by (cases n) (auto simp: dumps_str_def)
  then show ?case by (simp add: dumps_str_def scan_dumps_str)
next
  case (JInt i)
  obtain c cs where c: "str_int i = c # cs" by (cases "str_int i") (auto simp: str_int_def split: if_splits)
  then obtain m where m: "n = Suc m" using JInt by (cases n) auto
  have "is_digit c \<or> c = CHR ''-''" using numeral_start [of c i 0] c by simp
  then show ?case using parse_number_value [of c "cs @ rest"] scan_str_int [OF JInt(2), of i] by (simp add: c m del: parse_value.simps)
next
  case (JFloat x)
  obtain c cs where c: "repr_float x = c # cs" using json_dumps_start [OF JFloat(1)] by auto
  then obtain m where m: "n = Suc m" using JFloat by (cases n) auto
  have "is_digit c \<or> c = CHR ''-''" using numeral_start [of c 0 x] c JFloat(1) by simp
  then show ?case using parse_number_value [of c "cs @ rest"] scan_repr_float [OF _ JFloat(2), of x] JFloat(1)
    by (simp add: c m del: parse_value.simps)
next
  case (JBool b)
  then obtain m where "n = Suc m" by (cases n) (auto split: if_splits)
  then show ?case by (simp add: parse_const_def)
next
  case JNull
  then obtain m where "n = Suc m" by (cases n) auto
  then show ?case by (simp add: parse_const_def)
next
  case (JArr vs)
  have elems: "parse_elems k (join '', '' (map json_dumps us) @ CHR 0x5D # rest) = Inr (us, rest)"
    if "us \<noteq> []" "set us \<subseteq> set vs" "2 * length (join '', '' (map json_dumps us)) + 1 \<le> k" for us k
    using that
  proof (induction us arbitrary: k)
    case (Cons u us)
    then obtain j where j: "k = Suc j" by (cases k) auto
    have u: "u \<in> set vs" "json_ok u" using Cons.prems(2) JArr.prems(1) by (auto simp: list_all_iff)
    have ok: "list_all json_ok us" using Cons.prems(2) JArr.prems(1) by (auto simp: list_all_iff)
    show ?case
    proof (cases us)
      case Nil
      then show ?thesis
        using JArr.IH [OF u, of "CHR 0x5D # rest" j] Cons.prems(3) j by (simp add: delimited_def is_ws_def)
    next
      case (Cons w ws)
      let ?rest = "join '', '' (map json_dumps us) @ CHR 0x5D # rest"
      have "skip_ws (CHR '' '' # ?rest) = ?rest"
        using skip_ws_dumps [of w] ok Cons by (simp add: join_Cons is_ws_def)
      moreover have "parse_value j (json_dumps u @ '', '' @ ?rest) = Inr (u, '', '' @ ?rest)"
        using JArr.IH [OF u, of "'', '' @ ?rest" j] Cons.prems(3) j by (simp add: delimited_def join_Cons)
      moreover have "parse_elems j ?rest = Inr (us, rest)"
        using Cons.IH Cons.prems j Cons by (simp add: join_Cons)
      ultimately show ?thesis using Cons j by (simp add: join_Cons is_ws_def)
    qed
  qed simp
  obtain m where m: "n = Suc m" using JArr.prems(3) by (cases n) auto
  show ?case
  proof (cases vs)
    case Nil
    then show ?thesis by (simp add: m is_ws_def)
  next
    case (Cons w ws)
    let ?text = "join '', '' (map json_dumps vs) @ CHR 0x5D # rest"
    obtain c cs where c: "json_dumps w = c # cs" "value_start c"
      using json_dumps_start [of w] JArr.prems(1) Cons by auto
    then obtain ds where ds: "?text = c # ds" using Cons by (simp add: join_Cons)
    have "c \<noteq> CHR 0x5D" "skip_ws ?text = ?text" using c(2) ds by (auto simp: value_start_def is_digit_def is_ws_def)
    moreover have "parse_elems m ?text = Inr (vs, rest)"
      using elems [of vs m] JArr.prems(3) m Cons by simp
    ultimately show ?thesis unfolding m using ds by simp
  qed
next
  case (JObj kvs)
  let ?pair = "\<lambda>(k, v). dumps_str k @ '': '' @ json_dumps v"
  have members: "parse_members k (join '', '' (map ?pair us) @ CHR 0x7D # rest) = Inr (us, rest)"
    if "us \<noteq> []" "set us \<subseteq> set kvs" "2 * length (join '', '' (map ?pair us)) + 1 \<le> k" for us k
    using that
  proof (induction us arbitrary: k)
    case (Cons p us)
    obtain key u where p: "p = (key, u)" by (cases p)
    then obtain j where j: "k = Suc j" using Cons.prems by (cases k) auto
    have u: "(key, u) \<in> set kvs" "json_ok u" using Cons.prems(2) JObj.prems(1) p by (auto simp: list_all_iff)
    have ws: "skip_ws (json_dumps u @ r) = json_dumps u @ r" for r by (rule skip_ws_dumps [OF u(2)])
    have no_ws: "\<not> is_ws CHR 0x7D" "\<not> is_ws CHR '',''" by (simp_all add: is_ws_def)
    have IH: "parse_value j (json_dumps u @ r) = Inr (u, r)" if "delimited r" "2 * length (json_dumps u) \<le> j" for r
      using JObj.IH [OF u(1), of u r j] u(2) that by simp
    show ?case
    proof (cases us)
      case Nil
      have "parse_value j (json_dumps u @ CHR 0x7D # rest) = Inr (u, CHR 0x7D # rest)"
        using Cons.prems(3) j Nil p by (intro IH) (simp_all add: delimited_def)
      then show ?thesis
        using parse_member_step [OF _ ws no_ws(1)] by (simp add: Nil p j del: parse_members.simps)
    next
      case (Cons q qs)
      let ?rest = "join '', '' (map ?pair us) @ CHR 0x7D # rest"
      obtain key' w where q: "q = (key', w)" by (cases q)
      have "skip_ws (CHR '' '' # ?rest) = ?rest"
        using Cons q by (simp add: join_Cons is_ws_def dumps_str_def)
      moreover have "parse_value j (json_dumps u @ CHR '','' # CHR '' '' # ?rest) = Inr (u, CHR '','' # CHR '' '' # ?rest)"
        using Cons.prems(3) j p Cons by (intro IH) (simp_all add: delimited_def join_Cons)
      moreover have "parse_members j ?rest = Inr (us, rest)"
        using Cons.IH Cons.prems j Cons p by (simp add: join_Cons)
      moreover have "join '', '' (map ?pair ((key, u) # us)) @ CHR 0x7D # rest =
          dumps_str key @ '': '' @ json_dumps u @ CHR '','' # CHR '' '' # ?rest"
        using Cons by (simp add: join_Cons)
      ultimately show ?thesis
        using parse_member_step [OF _ ws no_ws(2), where j = j and u = u and key = key and r = "CHR '' '' # ?rest"]
        by (simp only: p j) simp
    qed
  qed simp
  obtain m where m: "n = Suc m" using JObj.prems(3) by (cases n) auto
  show ?case
  proof (cases kvs)
    case Nil
    then show ?thesis by (simp add: m is_ws_def)
  next
    case (Cons q qs)
    let ?text = "join '', '' (map ?pair kvs) @ CHR 0x7D # rest"
    obtain key w where q: "q = (key, w)" by (cases q)
    obtain ds where ds: "?text = CHR 0x22 # ds" using Cons q by (simp add: join_Cons dumps_str_def)
    have "skip_ws ?text = ?text" using ds by (auto simp: is_ws_def)
    moreover have "parse_members m ?text = Inr (kvs, rest)"
      using members [of kvs m] JObj.prems(3) m Cons by simp
    ultimately show ?thesis unfolding m using ds JObj.prems(1) by (simp add: dict_of_distinct_eq)
  qed
qed

theorem json_loads_dumps:
  assumes "json_ok v"
  shows "json_loads (json_dumps v) = Inr v"
  using parse_dumps [OF assms, of "[]" "2 * length (json_dumps v) + 2"] skip_ws_dumps [OF assms, of "[]"]
  by (simp add: json_loads_def delimited_def)

section \<open>The bound on nested calls is large enough\<close>

lemma scan_string_shorter: "scan_string s = Inr (t, r) \<Longrightarrow> length r < length s"
proof (induction s arbitrary: t r rule: scan_string.induct)
  case (2 c cs)
  have drop: "length (drop n cs) \<le> length cs" for n by simp
  show ?case using 2 by (fastforce simp: res_bind_Inr split: if_splits option.splits)
qed simp

lemma skip_ws_shorter: "length (skip_ws s) \<le> length s"
  by (rule length_dropWhile_le)

lemma skip_ws_Cons: "skip_ws s = d # ds \<Longrightarrow> length ds < length s"
  using skip_ws_shorter [of s] by simp

lemma scan_number_shorter: "scan_number s = Inr (v, r) \<Longrightarrow> length r < length s"
proof -
  assume a: "scan_number s = Inr (v, r)"
  define s1 where "s1 = drop (length (if s \<noteq> [] \<and> hd s = CHR ''-'' then ''-'' else [])) s"
  define s2 where "s2 = drop (length (scan_int s1)) s1"
  have i: "scan_int s1 \<noteq> []" using a by (auto simp: scan_number_def Let_def s1_def split: if_splits)
  then have "s1 \<noteq> []" by (auto simp: scan_int_def)
  then have "length s2 < length s1" using i by (simp add: s2_def)
  moreover have "length s1 \<le> length s" by (simp add: s1_def)
  moreover have "length r \<le> length s2"
    using a i by (auto simp: scan_number_def Let_def s1_def [symmetric] s2_def [symmetric] res_bind_Inr split: if_splits)
  ultimately show ?thesis by linarith
qed

lemma parse_const_shorter: "parse_const w v s = Inr (u, r) \<Longrightarrow> w \<noteq> [] \<Longrightarrow> length r < length s"
  by (cases s) (auto simp: parse_const_def intro!: diff_less split: if_splits)

lemma parse_shorter:
  "parse_value n s = Inr (v, r) \<Longrightarrow> length r < length s"
  "parse_elems n s = Inr (vs, r) \<Longrightarrow> length r < length s"
  "parse_members n s = Inr (kvs, r) \<Longrightarrow> length r < length s"
proof (induction n s and n s and n s arbitrary: v r and vs r and kvs r rule: parse_value_parse_elems_parse_members.induct)
  case (2 n s)
  then show ?case
    by (cases s)
       (fastforce simp: res_bind_Inr split: if_splits list.splits dest: scan_string_shorter skip_ws_Cons scan_number_shorter parse_const_shorter)+
next
  case (4 n s)
  obtain u q where u: "parse_value n s = Inr (u, q)" using 4(3) by (auto simp: res_bind_Inr)
  have q: "length q < length s" by (rule 4(1) [OF u])
  obtain d ds where d: "skip_ws q = d # ds" using 4(3) u by (cases "skip_ws q") auto
  note ds = skip_ws_Cons [OF d]
  show ?case
  proof (cases "d = CHR 0x5D")
    case True
    then show ?thesis using 4(3) u d q ds by simp
  next
    case False
    then obtain us where "d = CHR '',''" "parse_elems n (skip_ws ds) = Inr (us, r)"
      using 4(3) u d by (auto simp: res_bind_Inr split: if_splits)
    then have "length r < length (skip_ws ds)" using 4(2) [OF u refl d False] by blast
    then show ?thesis using skip_ws_shorter [of ds] ds q by linarith
  qed
next
  case (6 n s)
  obtain cs where s: "s = CHR 0x22 # cs" using 6(3) by (auto split: list.splits if_splits)
  obtain key q where key: "scan_string cs = Inr (key, q)" using 6(3) s by (auto simp: res_bind_Inr)
  obtain ds where ds: "skip_ws q = CHR '':'' # ds" using 6(3) s key by (auto split: list.splits if_splits)
  obtain u q' where u: "parse_value n (skip_ws ds) = Inr (u, q')" using 6(3) s key ds by (auto simp: res_bind_Inr)
  obtain e es where e: "skip_ws q' = e # es" using 6(3) s key ds u by (cases "skip_ws q'") auto
  have "length q' < length (skip_ws ds)" using 6(1) [OF s _ key refl ds _ u] by blast
  then have short: "length es < length s"
    using scan_string_shorter [OF key] skip_ws_Cons [OF ds] skip_ws_Cons [OF e] skip_ws_shorter [of ds] s by simp
  show ?case
  proof (cases "e = CHR 0x7D")
    case True
    then show ?thesis using 6(3) s key ds u e short by simp
  next
    case False
    then obtain us where us: "e = CHR '',''" "parse_members n (skip_ws es) = Inr (us, r)"
      using 6(3) s key ds u e by (auto simp: res_bind_Inr split: if_splits)
    then have "length r < length (skip_ws es)" using 6(2) [OF s _ key refl ds _ u refl e False us] by blast
    then show ?thesis using skip_ws_shorter [of es] short by linarith
  qed
qed auto

text \<open>One more nested call than the text has characters twice makes no difference.\<close>

lemma parse_fuel_Suc:
  "(\<forall>s. 2 * length s < n \<longrightarrow> parse_value (Suc n) s = parse_value n s) \<and>
   (\<forall>s. 2 * length s + 1 < n \<longrightarrow> parse_elems (Suc n) s = parse_elems n s) \<and>
   (\<forall>s. 2 * length s + 1 < n \<longrightarrow> parse_members (Suc n) s = parse_members n s)"
proof (induction n)
  case (Suc n)
  have pv: "2 * length s < n \<Longrightarrow> parse_value (Suc n) s = parse_value n s" for s using Suc by blast
  have pe: "2 * length s + 1 < n \<Longrightarrow> parse_elems (Suc n) s = parse_elems n s" for s using Suc by blast
  have pm: "2 * length s + 1 < n \<Longrightarrow> parse_members (Suc n) s = parse_members n s" for s using Suc by blast
  have "parse_value (Suc (Suc n)) s = parse_value (Suc n) s" if s: "2 * length s < Suc n" for s
  proof (cases s)
    case (Cons c cs)
    have "2 * length (skip_ws cs) + 1 < n" using s Cons skip_ws_shorter [of cs] by simp
    then have "parse_elems (Suc n) (d # ds) = parse_elems n (d # ds)"
      "parse_members (Suc n) (d # ds) = parse_members n (d # ds)" if "skip_ws cs = d # ds" for d ds
      using pe [of "d # ds"] pm [of "d # ds"] that by (simp_all del: parse_elems.simps parse_members.simps)
    then show ?thesis
      unfolding parse_value.simps(2) Cons
      by (cases "skip_ws cs") (simp_all del: parse_elems.simps parse_members.simps dropWhile_eq_Nil_conv)
  qed simp
  moreover have "parse_elems (Suc (Suc n)) s = parse_elems (Suc n) s" if s: "2 * length s + 1 < Suc n" for s
  proof (cases "parse_value n s")
    case (Inr vr)
    obtain v r where vr: "vr = (v, r)" by (cases vr)
    have v: "parse_value (Suc n) s = Inr (v, r)" using pv s Inr vr by simp
    have "2 * length (skip_ws ds) + 1 < n" if "skip_ws r = d # ds" for d ds
      using parse_shorter(1) [of n s v r] Inr vr skip_ws_Cons [OF that] skip_ws_shorter [of ds] s by simp
    then have "skip_ws r = d # ds \<Longrightarrow> parse_elems (Suc n) (skip_ws ds) = parse_elems n (skip_ws ds)" for d ds
      by (intro pe)
    then show ?thesis
      unfolding parse_elems.simps(2) [of "Suc n" s] parse_elems.simps(2) [of n s] v Inr vr
      by (cases "skip_ws r") (simp_all del: parse_elems.simps parse_value.simps dropWhile_eq_Nil_conv)
  qed (use pv s in simp)
  moreover have "parse_members (Suc (Suc n)) s = parse_members (Suc n) s" if s: "2 * length s + 1 < Suc n" for s
  proof (cases "\<exists>cs k r ds. s = CHR 0x22 # cs \<and> scan_string cs = Inr (k, r) \<and> skip_ws r = CHR '':'' # ds")
    case True
    then obtain cs k r ds where h: "s = CHR 0x22 # cs" "scan_string cs = Inr (k, r)" "skip_ws r = CHR '':'' # ds" by blast
    have len: "length (skip_ws ds) + 3 \<le> length s"
      using h(1) scan_string_shorter [OF h(2)] skip_ws_Cons [OF h(3)] skip_ws_shorter [of ds] by simp
    then have v: "parse_value (Suc n) (skip_ws ds) = parse_value n (skip_ws ds)" using pv s by simp
    show ?thesis
    proof (cases "parse_value n (skip_ws ds)")
      case (Inr ur)
      obtain u q where ur: "ur = (u, q)" by (cases ur)
      have "2 * length (skip_ws es) + 1 < n" if "skip_ws q = e # es" for e es
        using parse_shorter(1) [of n "skip_ws ds" u q] Inr ur skip_ws_Cons [OF that] skip_ws_shorter [of es] len s by simp
      then have "skip_ws q = e # es \<Longrightarrow> parse_members (Suc n) (skip_ws es) = parse_members n (skip_ws es)" for e es
        by (intro pm)
      then show ?thesis
        unfolding parse_members.simps(2) [of "Suc n" s] parse_members.simps(2) [of n s]
        by (cases "skip_ws q") (simp_all add: h v Inr ur del: parse_members.simps parse_value.simps dropWhile_eq_Nil_conv)
    next
      case (Inl e)
      then show ?thesis
        unfolding parse_members.simps(2) [of "Suc n" s] parse_members.simps(2) [of n s]
        by (simp add: h v del: parse_members.simps parse_value.simps)
    qed
  next
    case False
    note unf = parse_members.simps(2) [of "Suc n" s] parse_members.simps(2) [of n s]
    show ?thesis
    proof (cases s)
      case (Cons c cs)
      show ?thesis
      proof (cases "scan_string cs")
        case (Inr kr)
        obtain k r where kr: "kr = (k, r)" by (cases kr)
        then show ?thesis
          using False Inr Cons unfolding unf
          by (cases "skip_ws r") (auto simp del: parse_members.simps parse_value.simps dropWhile_eq_Nil_conv)
      qed (simp add: unf [unfolded Cons] Cons del: parse_members.simps)
    qed simp
  qed
  ultimately show ?case by blast
qed simp

lemma parse_fuel: "2 * length s < n \<Longrightarrow> n \<le> m \<Longrightarrow> parse_value m s = parse_value n s"
proof (induction m)
  case (Suc m)
  then show ?case using parse_fuel_Suc [of m] by (cases "n = Suc m") auto
qed simp

end
