(* ===== verification/UiServer.thy ===== *)
theory UiServer
  imports MdViews PyJson
begin

text \<open>
  The rest of \<open>ui/main.py\<close> apart from its concurrency: the configuration file and the command
  line, the admin commands that claim and release a FIX session, the startup sequence of
  \<open>lifespan\<close> that seeds the book, and the handling of one order message from a browser. The peer
  of an admin connection is a parameter: \<open>Inl\<close> when the connection cannot be opened, otherwise the
  function from the request bytes to the line that is read back.
\<close>

section \<open>Configuration\<close>

text \<open>The lines of the file, or \<open>None\<close> when it does not exist.\<close>

definition cfg_line :: "string \<Rightarrow> (string, string) dict \<Rightarrow> (string, string) dict" where
  "cfg_line raw cfg =
     (let line = strip raw
      in if CHR ''='' \<in> set line \<and> \<not> startswith line ''[''
         then (case partition_on CHR ''='' line of (k, _, v) \<Rightarrow> AList.update (strip k) (strip v) cfg)
         else cfg)"

definition read_cfg :: "string list option \<Rightarrow> (string, string) dict" where
  "read_cfg file = (case file of None \<Rightarrow> [] | Some lines \<Rightarrow> fold cfg_line lines [])"

definition cfg_path :: "string \<Rightarrow> string list \<Rightarrow> string" where
  "cfg_path project_cfg argv = (if 1 < length argv then argv ! 1 else project_cfg)"

definition cfg_int :: "(string, string) dict \<Rightarrow> string \<Rightarrow> int \<Rightarrow> int res" where
  "cfg_int cfg key dflt = (case map_of cfg key of None \<Rightarrow> Inr dflt | Some v \<Rightarrow> py_int v)"

record ui_config =
  FIX_PORT :: int
  ADMIN_PORT :: int
  MD_GROUP :: string
  MD_PORT :: int
  SYMBOLS :: "string list"

definition symbol_list :: "string \<Rightarrow> string list" where
  "symbol_list v = map strip (filter (\<lambda>s. strip s \<noteq> []) (split_on CHR '','' v))"

definition ui_config_of :: "(string, string) dict \<Rightarrow> ui_config res" where
  "ui_config_of cfg =
     res_bind (cfg_int cfg ''SocketAcceptPort'' 5001) (\<lambda>fix_port.
     res_bind (cfg_int cfg ''AdminPort'' 5002) (\<lambda>admin_port.
     res_bind (cfg_int cfg ''MulticastPort'' 5003) (\<lambda>md_port.
       Inr \<lparr>FIX_PORT = fix_port, ADMIN_PORT = admin_port,
            MD_GROUP = dict_get cfg ''MulticastGroup'' ''239.1.1.1'', MD_PORT = md_port,
            SYMBOLS = symbol_list (dict_get cfg ''Symbols'' ''AAPL,MSFT,GOOG,AMZN'')\<rparr>)))"

text \<open>The module body: which file is read and what it gives.\<close>

definition load_config :: "(string \<Rightarrow> string list option) \<Rightarrow> string \<Rightarrow> string list \<Rightarrow> ui_config res" where
  "load_config files project_cfg argv = ui_config_of (read_cfg (files (cfg_path project_cfg argv)))"

definition http_port :: "string list \<Rightarrow> int res" where
  "http_port argv =
     (case List.extract (\<lambda>a. a = ''--port'') argv of
        None \<Rightarrow> Inr 8080
      | Some (_, _, rest) \<Rightarrow> (case rest of [] \<Rightarrow> Inl IndexError | v # _ \<Rightarrow> py_int v))"

section \<open>Admin commands\<close>

type_synonym admin_peer = "(bytes \<Rightarrow> bytes res) res"

definition admin_send :: "admin_peer \<Rightarrow> string \<Rightarrow> string res" where
  "admin_send peer cmd =
     res_bind peer (\<lambda>talk.
     res_bind (encode_ascii (cmd @ [CHR 0x0A])) (\<lambda>req.
     res_bind (talk req) (\<lambda>resp.
     res_bind (decode_ascii resp) (\<lambda>text. Inr (strip text)))))"

definition claim_session :: "admin_peer \<Rightarrow> string res" where
  "claim_session peer =
     res_bind (admin_send peer ''CLAIM-SESSION'') (\<lambda>resp.
       if \<not> startswith resp ''OK '' then Inl (RuntimeError ''CLAIM-SESSION failed'')
       else (case split_ws resp of _ # cid # _ \<Rightarrow> Inr cid | _ \<Rightarrow> Inl IndexError))"

definition release_session :: "admin_peer \<Rightarrow> string \<Rightarrow> unit res" where
  "release_session peer cid =
     (case admin_send peer (''RELEASE-SESSION '' @ cid) of Inl _ \<Rightarrow> Inr () | Inr _ \<Rightarrow> Inr ())"

section \<open>Server state\<close>

datatype ws_phase = Replaying nat | Live | Gone

record ui_state = md_state +
  fix_session :: AsyncFixSession
  comp_id :: string
  session_ts :: nat
  seq_counter :: nat
  exec_log :: "fix_msg list"
  ws_clients :: "nat list"
  ws_phases :: "(nat, ws_phase) dict"
  ws_tasks :: "(nat \<times> ws_msg) list"
  ws_sent :: "(nat \<times> ws_msg) list"

text \<open>
  \<open>ws_phases\<close> is where the handler of each connection stands, \<open>ws_tasks\<close> the \<open>_safe_send\<close>
  tasks that have been created and not run, and \<open>ws_sent\<close> everything the sockets have been sent,
  in order.
\<close>

definition initial_ui :: "string list \<Rightarrow> nat \<Rightarrow> ui_state" where
  "initial_ui syms ts =
     \<lparr>order_book = order_book (initial_md syms), order_state = [], trade_history = [],
      fix_session = AsyncFixSession_init [], comp_id = [], session_ts = ts, seq_counter = 0,
      exec_log = [], ws_clients = [], ws_phases = [], ws_tasks = [], ws_sent = []\<rparr>"

section \<open>Startup\<close>

text \<open>\<open>clock n\<close> is the time stamp of the message with sequence number \<open>n\<close>.\<close>

definition md_request :: "string list \<Rightarrow> (string \<times> string) list" where
  "md_request syms =
     [(''262'', ''INIT''), (''263'', ''0''), (''264'', ''0''), (''267'', ''2''), (''269'', ''0''),
      (''269'', ''1''), (''146'', str_nat (length syms))] @ map (\<lambda>s. (''55'', s)) syms"

definition ui_send ::
  "(nat \<Rightarrow> string) \<Rightarrow> string \<Rightarrow> (string \<times> string) list \<Rightarrow> ui_state \<Rightarrow> unit res \<times> ui_state" where
  "ui_send clock msg_type body st =
     (case AsyncFixSession_send (clock (afs_seq (fix_session st))) msg_type body (fix_session st) of
        (r, s) \<Rightarrow> (r, st\<lparr>fix_session := s\<rparr>))"

definition ui_recv :: "bool \<Rightarrow> ui_state \<Rightarrow> fix_msg res \<times> ui_state" where
  "ui_recv timed st =
     (case AsyncFixSession_recv timed (fix_session st) of (r, s) \<Rightarrow> (r, st\<lparr>fix_session := s\<rparr>))"

definition heartbeat_body :: "fix_msg \<Rightarrow> (string \<times> string) list" where
  "heartbeat_body msg = [(''112'', msg_get msg ''112'' [])]"

abbreviation ui_weight :: "ui_state \<Rightarrow> nat" where
  "ui_weight st \<equiv> net_weight (afs_buf (fix_session st)) (afs_reader (fix_session st))"

lemma ui_recv_weight: "ui_recv timed st = (Inr msg, st') \<Longrightarrow> ui_weight st' < ui_weight st"
  by (auto simp: ui_recv_def split: prod.splits elim!: AsyncFixSession_recv_Inr dest!: recv_loop_weight)

lemma ui_send_weight: "ui_send clock mt body st = (r, st') \<Longrightarrow> ui_weight st' = ui_weight st"
  by (auto simp: ui_send_def AsyncFixSession_send_def split: prod.splits sum.splits)

lemma process_md_snapshot_weight [simp]: "fix_session (process_md_snapshot ts_of msg st) = fix_session st"
  by (simp add: process_md_snapshot_def Let_def split: option.split)

function seed_loop ::
  "(nat \<Rightarrow> string) \<Rightarrow> (string \<Rightarrow> rat option) \<Rightarrow> string list \<Rightarrow> ui_state \<Rightarrow> unit res \<times> ui_state" where
  "seed_loop clock ts_of pending st =
     (if pending = [] then (Inr (), st)
      else case ui_recv True st of
        (Inl e, st') \<Rightarrow> if e = TimeoutError then (Inr (), st') else (Inl e, st')
      | (Inr msg, st') \<Rightarrow>
          if msg_tag msg ''35'' = Some ''W'' then
            seed_loop clock ts_of (removeAll (msg_get msg ''55'' []) pending)
              (process_md_snapshot ts_of msg st')
          else if msg_tag msg ''35'' = Some ''1'' then
            (case ui_send clock ''0'' (heartbeat_body msg) st' of
               (Inl e, st'') \<Rightarrow> (Inl e, st'')
             | (Inr _, st'') \<Rightarrow> seed_loop clock ts_of pending st'')
          else seed_loop clock ts_of pending st')"
  by pat_completeness auto
termination
  by (relation "measure (\<lambda>(clock, ts_of, pending, st). ui_weight st)")
     (auto dest!: sym [THEN ui_recv_weight] sym [THEN ui_send_weight])

declare seed_loop.simps [simp del]


text \<open>
  \<open>lifespan\<close> up to the start of the reader task and of the datagram endpoint; \<open>net\<close> is what
  the exchange will send on the connection.
\<close>

definition lifespan_start ::
  "admin_peer \<Rightarrow> (nat \<Rightarrow> string) \<Rightarrow> (string \<Rightarrow> rat option) \<Rightarrow> net_event list \<Rightarrow> ui_state \<Rightarrow>
   unit res \<times> ui_state" where
  "lifespan_start peer clock ts_of net st =
     (case claim_session peer of
        Inl e \<Rightarrow> (Inl e, st)
      | Inr cid \<Rightarrow>
          (let s0 = AsyncFixSession_connect net (AsyncFixSession_init cid)
           in case AsyncFixSession_logon (clock (afs_seq s0)) s0 of
                (Inl e, s1) \<Rightarrow> (Inl e, st\<lparr>comp_id := cid, fix_session := s1\<rparr>)
              | (Inr _, s1) \<Rightarrow>
                  (let st1 = st\<lparr>comp_id := cid, fix_session := s1,
                                exec_log := exec_log st @ afs_order_statuses s1\<rparr>;
                       syms = map fst (order_book st1)
                   in if syms = [] then (Inr (), st1)
                      else case ui_send clock ''V'' (md_request syms) st1 of
                             (Inl e, st2) \<Rightarrow> (Inl e, st2)
                           | (Inr _, st2) \<Rightarrow> seed_loop clock ts_of syms st2)))"

definition lifespan_stop :: "admin_peer \<Rightarrow> (nat \<Rightarrow> string) \<Rightarrow> ui_state \<Rightarrow> unit res \<times> ui_state" where
  "lifespan_stop peer clock st =
     (let s = AsyncFixSession_logout (clock (afs_seq (fix_session st))) (fix_session st)
      in (release_session peer (comp_id st), st\<lparr>fix_session := s\<rparr>))"

section \<open>Orders from the browser\<close>

definition clord_id :: "string \<Rightarrow> nat \<Rightarrow> nat \<Rightarrow> string" where
  "clord_id cid ts n = cid @ ''-'' @ str_nat ts @ ''-'' @ str_nat n"

definition fix_side :: "json \<Rightarrow> string" where
  "fix_side v = (if v = JStr ''buy'' then ''1'' else ''2'')"

definition new_order_body :: "string \<Rightarrow> string \<Rightarrow> json_obj \<Rightarrow> (string \<times> string) list res" where
  "new_order_body clid ts data =
     res_bind (dict_index data ''symbol'') (\<lambda>symbol.
     res_bind (dict_index data ''side'') (\<lambda>side.
     res_bind (dict_index data ''price'') (\<lambda>price.
     res_bind (dict_index data ''qty'') (\<lambda>qty.
       Inr [(''11'', clid), (''21'', ''1''), (''55'', py_str symbol), (''54'', fix_side side), (''40'', ''2''),
            (''44'', py_str price), (''38'', py_str qty), (''60'', ts)]))))"

definition cancel_body :: "string \<Rightarrow> string \<Rightarrow> json_obj \<Rightarrow> (string \<times> string) list res" where
  "cancel_body clid ts data =
     res_bind (dict_index data ''orig_clord_id'') (\<lambda>orig.
     res_bind (dict_index data ''symbol'') (\<lambda>symbol.
     res_bind (dict_index data ''side'') (\<lambda>side.
     res_bind (dict_index data ''qty'') (\<lambda>qty.
       Inr [(''41'', py_str orig), (''11'', clid), (''55'', py_str symbol), (''54'', fix_side side),
            (''38'', py_str qty), (''60'', ts)]))))"

text \<open>
  One round of the handler's loop: \<open>None\<close> is a message of another type, which is ignored. The
  counter is advanced before the fields of the message are read.
\<close>

definition ws_request ::
  "string \<Rightarrow> json_obj \<Rightarrow> ui_state \<Rightarrow> (string \<times> (string \<times> string) list) option res \<times> ui_state" where
  "ws_request ts data st =
     (case dict_index data ''type'' of
        Inl e \<Rightarrow> (Inl e, st)
      | Inr ty \<Rightarrow>
          (let st1 = st\<lparr>seq_counter := seq_counter st + 1\<rparr>;
               clid = clord_id (comp_id st1) (session_ts st1) (seq_counter st1)
           in if ty = JStr ''new_order''
              then (res_bind (new_order_body clid ts data) (\<lambda>b. Inr (Some (''D'', b))), st1)
              else if ty = JStr ''cancel''
              then (res_bind (cancel_body clid ts data) (\<lambda>b. Inr (Some (''F'', b))), st1)
              else (Inr None, st)))"

definition ws_receive ::
  "(nat \<Rightarrow> string) \<Rightarrow> string \<Rightarrow> json_obj \<Rightarrow> ui_state \<Rightarrow> unit res \<times> ui_state" where
  "ws_receive clock ts data st =
     (case ws_request ts data st of
        (Inl e, st1) \<Rightarrow> (Inl e, st1)
      | (Inr None, st1) \<Rightarrow> (Inr (), st1)
      | (Inr (Some (mt, body)), st1) \<Rightarrow> ui_send clock mt body st1)"

text \<open>A text frame from a browser; only a dictionary can be asked for its \<open>"type"\<close>.\<close>

definition ws_text :: "(nat \<Rightarrow> string) \<Rightarrow> string \<Rightarrow> string \<Rightarrow> ui_state \<Rightarrow> unit res \<times> ui_state" where
  "ws_text clock ts raw st =
     (case json_loads raw of
        Inl e \<Rightarrow> (Inl e, st)
      | Inr (JObj data) \<Rightarrow> ws_receive clock ts data st
      | Inr _ \<Rightarrow> (Inl TypeError, st))"


section \<open>Properties of the configuration\<close>

definition trimmed :: "string \<Rightarrow> bool" where
  "trimmed s \<longleftrightarrow> s = [] \<or> \<not> py_isspace (hd s) \<and> \<not> py_isspace (last s)"

lemma strip_newline:
  assumes "trimmed s" "s \<noteq> []"
  shows "strip (s @ [CHR 0x0A]) = s"
proof -
  have "dropWhile py_isspace (s @ [CHR 0x0A]) = s @ [CHR 0x0A]"
    using assms by (cases s) (auto simp: trimmed_def)
  moreover have "dropWhile py_isspace (rev s) = rev s"
    using assms by (auto simp: dropWhile_eq_self_iff hd_rev trimmed_def)
  ultimately show ?thesis by (simp add: strip_def py_isspace_def)
qed

lemma strip_trimmed: "trimmed s \<Longrightarrow> strip s = s"
  by (cases "s = []") (simp add: strip_def, simp add: trimmed_def strip_id)

text \<open>A setting that a \<open>key=value\<close> line can carry, and the line.\<close>

definition setting_ok :: "string \<times> string \<Rightarrow> bool" where
  "setting_ok kv \<longleftrightarrow> trimmed (fst kv) \<and> trimmed (snd kv) \<and> CHR ''='' \<notin> set (fst kv) \<and>
     \<not> prefix ''['' (fst kv)"

definition setting_line :: "string \<times> string \<Rightarrow> string" where
  "setting_line kv = fst kv @ ''='' @ snd kv @ [CHR 0x0A]"

lemma cfg_line_setting:
  assumes "setting_ok kv"
  shows "cfg_line (setting_line kv) cfg = AList.update (fst kv) (snd kv) cfg"
proof -
  obtain k v where kv: "kv = (k, v)" by (cases kv)
  have tr: "trimmed k" "trimmed v" "CHR ''='' \<notin> set k" "\<not> prefix ''['' k"
    using assms by (simp_all add: kv setting_ok_def)
  have "trimmed (k @ CHR ''='' # v)"
    using tr(1,2) by (auto simp: trimmed_def hd_append py_isspace_def)
  then have line: "strip (setting_line kv) = k @ CHR ''='' # v"
    using strip_newline [of "k @ CHR ''='' # v"] by (simp add: setting_line_def kv)
  have "\<not> startswith (k @ CHR ''='' # v) ''[''"
    using tr(4) by (cases k) (auto simp: startswith_def)
  moreover have "partition_on CHR ''='' (k @ CHR ''='' # v) = (k, ''='', v)"
    using tr(3) by (simp add: partition_on_def takeWhile_append2 dropWhile_append2)
  ultimately show ?thesis
    by (simp add: cfg_line_def line Let_def strip_trimmed tr(1,2)) (simp add: kv)
qed



text \<open>
  Starting the server with \<open>--port N\<close>, as the documentation does for a second instance, makes
  the string \<open>--port\<close> the path of the configuration file: the project's configuration is never read
  and every setting is the built-in default, while the port is honoured.
\<close>

theorem port_option_hides_config:
  assumes "files ''--port'' = None"
  shows "load_config files project_cfg [prog, ''--port'', str_int n] = ui_config_of [] \<and>
         load_config files project_cfg [prog] = ui_config_of (read_cfg (files project_cfg)) \<and>
         (prog \<noteq> ''--port'' \<longrightarrow> http_port [prog, ''--port'', str_int n] = Inr n)"
  using assms by (simp add: load_config_def cfg_path_def read_cfg_def http_port_def extract_Cons_code)

theorem port_option_hides_config_witness:
  "let files = (\<lambda>p. if p = ''exchange.cfg'' then Some [''AdminPort=6002''] else None)
   in map_sum id ADMIN_PORT (load_config files ''exchange.cfg'' [''main.py'', ''--port'', ''8081'']) = Inr 5002 \<and>
      map_sum id ADMIN_PORT (load_config files ''exchange.cfg'' [''main.py'']) = Inr 6002"
proof -
  let ?files = "\<lambda>p. if p = ''exchange.cfg'' then Some [''AdminPort=6002''] else None"
  have "str_int 8081 = ''8081''" by code_simp
  moreover have "map_sum id ADMIN_PORT (ui_config_of []) = Inr 5002"
    "map_sum id ADMIN_PORT (ui_config_of (read_cfg (Some [''AdminPort=6002'']))) = Inr 6002" by code_simp+
  ultimately show ?thesis
    using port_option_hides_config [of ?files "''exchange.cfg''" "''main.py''" 8081] by (simp add: Let_def)
qed


section \<open>Properties of the admin client\<close>

lemma split_ws_two:
  assumes "prefix ''OK '' s" "strip s = s"
  obtains t rest where "split_ws s = ''OK'' # t # rest" "is_token t"
proof -
  obtain u where u: "s = ''OK '' @ u" using assms(1) by (auto simp: prefix_def)
  have "\<not> list_all py_isspace u"
  proof
    assume "list_all py_isspace u"
    then have "dropWhile py_isspace (rev u @ '' KO'') = dropWhile py_isspace '' KO''"
      by (intro dropWhile_append2) (simp add: list_all_iff)
    then have "strip s = ''OK''" by (simp add: strip_def u py_isspace_def)
    then show False using assms(2) u by simp
  qed
  then have "split_ws u \<noteq> []"
  proof -
    have "split_ws_acc w v \<noteq> []" if "w \<noteq> [] \<or> \<not> list_all py_isspace v" for w v
      using that by (induction w v rule: split_ws_acc.induct) auto
    then show ?thesis using \<open>\<not> list_all py_isspace u\<close> by (simp add: split_ws_def)
  qed
  then obtain t rest where tr: "split_ws u = t # rest" by (cases "split_ws u") auto
  have "is_token ''OK''" by code_simp
  then have "split_ws s = ''OK'' # t # rest"
    using split_ws_cons [of "''OK''" u] tr by (simp add: u)
  moreover have "is_token t" using split_ws_tokens [of t u] tr by simp
  ultimately show thesis by (rule that)
qed

lemma strip_strip: "strip (strip s) = strip s"
proof (cases "strip s = []")
  case False
  let ?d = "dropWhile py_isspace s"
  have "\<not> py_isspace (last (strip s))"
    using False hd_dropWhile [of py_isspace "rev ?d"] by (simp add: strip_def last_rev)
  moreover have "\<not> py_isspace (hd (strip s))"
  proof -
    obtain us where d: "?d = strip s @ us"
      unfolding strip_def by (metis rev_append rev_rev_ident takeWhile_dropWhile_id)
    then have "hd (strip s) = hd ?d" using False by simp
    moreover have "?d \<noteq> []" using d False by auto
    ultimately show ?thesis using hd_dropWhile [of py_isspace s] by simp
  qed
  ultimately show ?thesis using strip_id [OF False] by simp
next
  case True
  then show ?thesis by (metis dropWhile.simps(1) rev.simps(1) strip_def)
qed

text \<open>
  Claiming a session. Whatever ASCII line the admin port answers, \<open>claim_session\<close> returns a
  non-empty name without white space when the line starts with \<open>OK\<close> and a word, and raises
  RuntimeError otherwise: the index into the words of the answer is never out of range. The answer
  \<open>OK S1\<close> gives \<open>S1\<close>.
\<close>

theorem claim_session_total:
  assumes "talk ''CLAIM-SESSION\<newline>'' = Inr resp" "list_all is_ascii resp"
  shows "(case claim_session (Inr talk) of
            Inr cid \<Rightarrow> startswith (strip resp) ''OK '' \<and> is_token cid \<and> cid = split_ws (strip resp) ! 1
          | Inl e \<Rightarrow> \<not> startswith (strip resp) ''OK '' \<and> e = RuntimeError ''CLAIM-SESSION failed'') \<and>
         (is_token name \<and> resp = ''OK '' @ name @ [CHR 0x0A] \<longrightarrow> claim_session (Inr talk) = Inr name)"
proof -
  have sent: "admin_send (Inr talk) ''CLAIM-SESSION'' = Inr (strip resp)"
    using assms by (simp add: admin_send_def decode_ascii_def encode_ascii_def is_ascii_def)
  have "case claim_session (Inr talk) of
            Inr cid \<Rightarrow> startswith (strip resp) ''OK '' \<and> is_token cid \<and> cid = split_ws (strip resp) ! 1
          | Inl e \<Rightarrow> \<not> startswith (strip resp) ''OK '' \<and> e = RuntimeError ''CLAIM-SESSION failed''"
  proof (cases "startswith (strip resp) ''OK ''")
    case True
    then obtain t rest where "split_ws (strip resp) = ''OK'' # t # rest" "is_token t"
      using split_ws_two [of "strip resp"] strip_strip by (auto simp: startswith_def)
    with True show ?thesis by (simp add: claim_session_def sent)
  qed (simp add: claim_session_def sent)
  moreover have "claim_session (Inr talk) = Inr name" if n: "is_token name" "resp = ''OK '' @ name @ [CHR 0x0A]"
  proof -
    have "name \<noteq> []" "\<not> py_isspace (last name)"
      using n(1) by (auto simp: is_token_def list_all_iff)
    then have "strip resp = ''OK '' @ name"
      using strip_newline [of "''OK '' @ name"] n(2) by (simp add: trimmed_def py_isspace_def)
    moreover have "split_ws (''OK '' @ name) = [''OK'', name]"
      using split_ws_cons [of "''OK''" name] split_ws_single [OF n(1)]
      by (simp add: is_token_def py_isspace_def)
    ultimately show ?thesis by (simp add: claim_session_def sent startswith_def)
  qed
  ultimately show ?thesis by simp
qed

theorem claim_session_total_witness:
  "claim_session (Inr (\<lambda>req. if req = ''CLAIM-SESSION\<newline>'' then Inr (''OK S1'' @ [CHR 0x0A]) else Inl OSError)) = Inr ''S1''"
  using claim_session_total [of "\<lambda>req. if req = ''CLAIM-SESSION\<newline>'' then Inr (''OK S1'' @ [CHR 0x0A]) else Inl OSError"
      "''OK S1'' @ [CHR 0x0A]" "''S1''"]
  by (simp add: is_ascii_def is_token_def py_isspace_def)


section \<open>Properties of order entry\<close>

lemma dash_cut:
  assumes "CHR ''-'' \<notin> set a" "CHR ''-'' \<notin> set a'" "a @ ''-'' @ b = a' @ ''-'' @ b'"
  shows "a = a' \<and> b = b'"
proof -
  have "takeWhile (\<lambda>c. c \<noteq> CHR ''-'') (a @ ''-'' @ b) = a" "takeWhile (\<lambda>c. c \<noteq> CHR ''-'') (a' @ ''-'' @ b') = a'"
    using assms(1,2) by (simp_all add: takeWhile_append2)
  with assms(3) have "a = a'" by simp
  with assms(3) show ?thesis by simp
qed

lemma clord_id_inject: "clord_id cid ts n = clord_id cid ts' n' \<longleftrightarrow> ts = ts' \<and> n = n'"
proof
  assume "clord_id cid ts n = clord_id cid ts' n'"
  then have "str_nat ts @ ''-'' @ str_nat n = str_nat ts' @ ''-'' @ str_nat n'"
    by (simp add: clord_id_def)
  moreover have "CHR ''-'' \<notin> set (str_nat k)" for k by (rule notin_str_nat) (simp add: is_digit_def)
  ultimately show "ts = ts' \<and> n = n'" using dash_cut by (metis str_nat_inject)
qed simp

text \<open>The FIX requests that a sequence of browser messages gives rise to, errors skipped.\<close>

fun ws_requests :: "(string \<times> json_obj) list \<Rightarrow> ui_state \<Rightarrow> (string \<times> (string \<times> string) list) list" where
  "ws_requests [] st = []"
| "ws_requests ((ts, data) # ins) st =
     (case ws_request ts data st of
        (Inr (Some req), st') \<Rightarrow> req # ws_requests ins st'
      | (_, st') \<Rightarrow> ws_requests ins st')"

definition request_id :: "string \<times> (string \<times> string) list \<Rightarrow> string" where
  "request_id req = the (map_of (snd req) ''11'')"

lemma ws_request_state:
  "ws_request ts data st = (r, st') \<Longrightarrow>
   comp_id st' = comp_id st \<and> session_ts st' = session_ts st \<and> seq_counter st \<le> seq_counter st' \<and>
   fix_session st' = fix_session st \<and>
   (\<forall>req. r = Inr (Some req) \<longrightarrow> seq_counter st' = seq_counter st + 1 \<and>
      request_id req = clord_id (comp_id st) (session_ts st) (seq_counter st'))"
  by (auto simp: ws_request_def Let_def res_bind_Inr new_order_body_def cancel_body_def request_id_def
      split: sum.splits if_splits)

lemma ws_requests_ids:
  "request_id ` set (ws_requests ins st) \<subseteq> clord_id (comp_id st) (session_ts st) ` {seq_counter st <..} \<and>
   distinct (map request_id (ws_requests ins st))"
proof (induction ins arbitrary: st)
  case (Cons x ins)
  obtain ts data where x: "x = (ts, data)" by (cases x)
  obtain r st' where r: "ws_request ts data st = (r, st')" by (cases "ws_request ts data st")
  note st' = ws_request_state [OF r]
  note IH = Cons.IH [of st']
  have later: "request_id ` set (ws_requests ins st') \<subseteq>
      clord_id (comp_id st) (session_ts st) ` {seq_counter st' <..}" using IH st' by simp
  show ?case
  proof (cases "\<exists>req. r = Inr (Some req)")
    case True
    then obtain req where req: "r = Inr (Some req)" by blast
    then have id: "request_id req = clord_id (comp_id st) (session_ts st) (seq_counter st')"
      and n: "seq_counter st' = seq_counter st + 1" using st' by auto
    have "request_id req \<notin> request_id ` set (ws_requests ins st')"
      using later id by (auto simp: clord_id_inject)
    then show ?thesis using IH later req r n id by (auto simp: x)
  next
    case False
    then have "ws_requests (x # ins) st = ws_requests ins st'"
      using r by (auto simp: x split: sum.splits option.splits)
    moreover have "{seq_counter st' <..} \<subseteq> {seq_counter st <..}" using st' by auto
    ultimately show ?thesis using IH later by auto
  qed
qed simp

text \<open>
  C17: Every order and cancel request gets its own ClOrdID. Whatever browsers send, in whatever
  order, no two requests of one server run have the same id, and requests of two runs of the
  server on the same session, started at different milliseconds, never share one.
\<close>

theorem clord_ids_unique:
  "distinct (map request_id (ws_requests ins st)) \<and>
   (comp_id st' = comp_id st \<and> session_ts st' \<noteq> session_ts st \<longrightarrow>
      request_id ` set (ws_requests ins st) \<inter> request_id ` set (ws_requests ins' st') = {})"
proof -
  let ?ids = "\<lambda>st. clord_id (comp_id st) (session_ts st) ` {seq_counter st <..}"
  have "?ids st \<inter> ?ids st' = {}" if "comp_id st' = comp_id st" "session_ts st' \<noteq> session_ts st"
    using that by (auto simp: clord_id_inject)
  moreover have "request_id ` set (ws_requests ins st) \<subseteq> ?ids st"
    "request_id ` set (ws_requests ins' st') \<subseteq> ?ids st'"
    "distinct (map request_id (ws_requests ins st))"
    using ws_requests_ids by simp_all
  ultimately show ?thesis by (metis Int_mono subset_empty)
qed

definition example_order :: json_obj where
  "example_order = [(''type'', JStr ''new_order''), (''symbol'', JStr ''AAPL''), (''side'', JStr ''buy''),
     (''qty'', JInt 10), (''price'', JFloat (301 / 2))]"

theorem clord_ids_unique_witness:
  "let st = (initial_ui [''AAPL''] 17)\<lparr>comp_id := ''S1''\<rparr>; st' = (initial_ui [''AAPL''] 18)\<lparr>comp_id := ''S1''\<rparr>
   in length (ws_requests [(''t'', example_order), (''t'', example_order)] st) = 2 \<and>
      request_id ` set (ws_requests [(''t'', example_order), (''t'', example_order)] st) \<inter>
      request_id ` set (ws_requests [(''t'', example_order)] st') = {}"
proof -
  define st where "st = (initial_ui [''AAPL''] 17)\<lparr>comp_id := ''S1''\<rparr>"
  define st' where "st' = (initial_ui [''AAPL''] 18)\<lparr>comp_id := ''S1''\<rparr>"
  have len: "length (ws_requests [(''t'', example_order), (''t'', example_order)] st) = 2"
    unfolding st_def by code_simp
  have "comp_id st' = comp_id st \<and> session_ts st' \<noteq> session_ts st"
    by (simp add: st_def st'_def initial_ui_def)
  then have "request_id ` set (ws_requests [(''t'', example_order), (''t'', example_order)] st) \<inter>
      request_id ` set (ws_requests [(''t'', example_order)] st') = {}"
    using clord_ids_unique [of "[(''t'', example_order), (''t'', example_order)]" st st' "[(''t'', example_order)]"]
    by blast
  with len show ?thesis by (simp only: Let_def st_def st'_def)
qed


lemma ui_send_result:
  "ui_send clock mt body st =
     (case build_message (clock (afs_seq (fix_session st))) mt (afs_seq (fix_session st)) body
             (afs_sender (fix_session st)) of
        Inl e \<Rightarrow> (Inl e, st)
      | Inr m \<Rightarrow> (Inr (), st\<lparr>fix_session := (fix_session st)
                     \<lparr>afs_seq := afs_seq (fix_session st) + 1, afs_writer := afs_writer (fix_session st) @ [m]\<rparr>\<rparr>))"
  by (auto simp: ui_send_def AsyncFixSession_send_def split: sum.split)

lemma new_order_sent:
  assumes "map_of data ''type'' = Some (JStr ''new_order'')"
    and "map_of data ''symbol'' = Some symbol" "map_of data ''side'' = Some side"
    and "map_of data ''price'' = Some price" "map_of data ''qty'' = Some qty"
    and "new_order_body (clord_id (comp_id st) (session_ts st) (seq_counter st + 1)) ts data = Inr body"
    and "list_all field_ok (message_fields (clock (afs_seq (fix_session st))) ''D'' (afs_seq (fix_session st))
           body (afs_sender (fix_session st)))"
  shows "\<exists>m. ws_receive clock ts data st =
      (Inr (), st\<lparr>seq_counter := seq_counter st + 1, fix_session := (fix_session st)
         \<lparr>afs_seq := afs_seq (fix_session st) + 1, afs_writer := afs_writer (fix_session st) @ [m]\<rparr>\<rparr>) \<and>
    map_of (parse_dict m) ''35'' = Some ''D'' \<and>
    map_of (parse_dict m) ''11'' = Some (clord_id (comp_id st) (session_ts st) (seq_counter st + 1)) \<and>
    map_of (parse_dict m) ''55'' = Some (py_str symbol) \<and>
    map_of (parse_dict m) ''54'' = Some (if side = JStr ''buy'' then ''1'' else ''2'') \<and>
    map_of (parse_dict m) ''44'' = Some (py_str price) \<and>
    map_of (parse_dict m) ''38'' = Some (py_str qty)"
proof -
  let ?s = "fix_session st" and ?id = "clord_id (comp_id st) (session_ts st) (seq_counter st + 1)"
  let ?kvs = "message_fields (clock (afs_seq ?s)) ''D'' (afs_seq ?s) body (afs_sender ?s)"
  have body: "body = [(''11'', ?id), (''21'', ''1''), (''55'', py_str symbol), (''54'', fix_side side),
      (''40'', ''2''), (''44'', py_str price), (''38'', py_str qty), (''60'', ts)]"
    using assms(2-6) by (simp add: new_order_body_def dict_index_def)
  note built = ui.build_fields [OF assms(7)]
  have keys: "distinct (map fst (frame_fields ?kvs))" "''10'' \<notin> fst ` set body"
    by (simp_all add: frame_fields_def message_fields_def header_fields_def body)
  note get = ui.parse_build_get [OF assms(7) built keys]
  have kv: "(''35'', ''D'') \<in> set ?kvs" "(''11'', ?id) \<in> set ?kvs" "(''55'', py_str symbol) \<in> set ?kvs"
    "(''54'', fix_side side) \<in> set ?kvs" "(''44'', py_str price) \<in> set ?kvs" "(''38'', py_str qty) \<in> set ?kvs"
    by (simp_all add: message_fields_def header_fields_def body)
  have "ws_request ts data st = (Inr (Some (''D'', body)), st\<lparr>seq_counter := seq_counter st + 1\<rparr>)"
    using assms(1,6) by (simp add: ws_request_def dict_index_def Let_def)
  then have "ws_receive clock ts data st = (Inr (), st\<lparr>seq_counter := seq_counter st + 1,
      fix_session := ?s\<lparr>afs_seq := afs_seq ?s + 1, afs_writer := afs_writer ?s @ [frame_text ?kvs]\<rparr>\<rparr>)"
    using built by (simp add: ws_receive_def ui_send_result)
  then show ?thesis using kv [THEN get] by (intro exI [of _ "frame_text ?kvs"]) (simp add: fix_side_def)
qed

text \<open>
  A \<open>new_order\<close> message with all its fields puts exactly one NewOrderSingle on the wire, next
  in sequence, and the exchange reads from it the symbol, side, price, quantity and the fresh
  ClOrdID the browser's message stands for.
\<close>

theorem ws_receive_new_order:
  assumes "map_of data ''type'' = Some (JStr ''new_order'')"
    and "map_of data ''symbol'' = Some symbol" "map_of data ''side'' = Some side"
    and "map_of data ''price'' = Some price" "map_of data ''qty'' = Some qty"
    and "new_order_body (clord_id (comp_id st) (session_ts st) (seq_counter st + 1)) ts data = Inr body"
    and "list_all field_ok (message_fields (clock (afs_seq (fix_session st))) ''D'' (afs_seq (fix_session st))
           body (afs_sender (fix_session st)))"
  shows "\<exists>m. ws_receive clock ts data st =
      (Inr (), st\<lparr>seq_counter := seq_counter st + 1, fix_session := (fix_session st)
         \<lparr>afs_seq := afs_seq (fix_session st) + 1, afs_writer := afs_writer (fix_session st) @ [m]\<rparr>\<rparr>) \<and>
    map_of (parse_dict m) ''35'' = Some ''D'' \<and>
    map_of (parse_dict m) ''11'' = Some (clord_id (comp_id st) (session_ts st) (seq_counter st + 1)) \<and>
    map_of (parse_dict m) ''55'' = Some (py_str symbol) \<and>
    map_of (parse_dict m) ''54'' = Some (if side = JStr ''buy'' then ''1'' else ''2'') \<and>
    map_of (parse_dict m) ''44'' = Some (py_str price) \<and>
    map_of (parse_dict m) ''38'' = Some (py_str qty)"
  by (rule new_order_sent [where clock = clock, OF assms])

theorem ws_receive_new_order_witness:
  "let st = (initial_ui [''AAPL''] 17)\<lparr>comp_id := ''S1'', fix_session := AsyncFixSession_init ''S1''\<rparr>
   in \<exists>m. afs_writer (fix_session (snd (ws_receive (\<lambda>n. ''T'') ''T'' example_order st))) = [m] \<and>
        map_of (parse_dict m) ''44'' = Some ''150.5'' \<and> map_of (parse_dict m) ''11'' = Some ''S1-17-1''"
proof -
  define st where "st = (initial_ui [''AAPL''] 17)\<lparr>comp_id := ''S1'', fix_session := AsyncFixSession_init ''S1''\<rparr>"
  have 1: "map_of example_order ''type'' = Some (JStr ''new_order'')"
    "map_of example_order ''symbol'' = Some (JStr ''AAPL'')" "map_of example_order ''side'' = Some (JStr ''buy'')"
    "map_of example_order ''price'' = Some (JFloat (301 / 2))" "map_of example_order ''qty'' = Some (JInt 10)"
    by (simp_all add: example_order_def)
  have b: "new_order_body (clord_id (comp_id st) (session_ts st) (seq_counter st + 1)) ''T'' example_order =
    Inr [(''11'', ''S1-17-1''), (''21'', ''1''), (''55'', ''AAPL''), (''54'', ''1''), (''40'', ''2''),
         (''44'', ''150.5''), (''38'', ''10''), (''60'', ''T'')]" unfolding st_def by code_simp
  have ok: "list_all field_ok (message_fields ''T'' ''D'' (afs_seq (fix_session st))
      [(''11'', ''S1-17-1''), (''21'', ''1''), (''55'', ''AAPL''), (''54'', ''1''), (''40'', ''2''),
       (''44'', ''150.5''), (''38'', ''10''), (''60'', ''T'')] (afs_sender (fix_session st)))"
    unfolding st_def by code_simp
  have v: "clord_id (comp_id st) (session_ts st) (seq_counter st + 1) = ''S1-17-1''"
    "py_str (JFloat (301 / 2)) = ''150.5''" "afs_writer (fix_session st) = []" unfolding st_def by code_simp+
  show ?thesis using ws_receive_new_order [OF 1 b, of "\<lambda>n. ''T''"] ok v
    by (auto simp: Let_def simp flip: st_def)
qed

lemma ws_receive_raises:
  "case fst (ws_receive clock ts data st) of
     Inl e \<Rightarrow> e \<in> {KeyError, UnicodeEncodeError} \<and>
       snd (ws_receive clock ts data st) \<in> {st, st\<lparr>seq_counter := seq_counter st + 1\<rparr>}
   | Inr _ \<Rightarrow> afs_seq (fix_session (snd (ws_receive clock ts data st))) \<le> afs_seq (fix_session st) + 1"
proof -
  have req: "e = KeyError \<and> st' \<in> {st, st\<lparr>seq_counter := seq_counter st + 1\<rparr>}"
    if "ws_request ts data st = (Inl e, st')" for e st'
    using that
    by (auto simp: ws_request_def Let_def dict_index_def new_order_body_def cancel_body_def res_bind_def
        split: option.splits sum.splits if_splits)
  have upd: "st' \<in> {st, st\<lparr>seq_counter := seq_counter st + 1\<rparr>}"
    if "ws_request ts data st = (r, st')" for r st'
    using that by (auto simp: ws_request_def Let_def split: sum.splits if_splits)
  have build: "e = UnicodeEncodeError" if "build_message t mt n b s = Inl e" for t mt n b s e
    using that by (simp add: build_message_eq Let_def split: if_splits)
  show ?thesis
  proof (cases "ws_request ts data st")
    case (Pair r st')
    note upd = upd [OF this]
    show ?thesis
      using Pair req upd build
      by (cases r) (fastforce simp: ws_receive_def ui_send_result split: option.split sum.split)+
  qed
qed

text \<open>
  A browser message that cannot be turned into a request (a field is missing, or some text is
  not ASCII) raises KeyError or UnicodeEncodeError with nothing sent: the FIX session, its
  sequence number and the book are as before, and only the ClOrdID counter may have moved on.
\<close>

theorem ws_receive_error:
  "case fst (ws_receive clock ts data st) of
     Inl e \<Rightarrow> e \<in> {KeyError, UnicodeEncodeError} \<and>
       snd (ws_receive clock ts data st) \<in> {st, st\<lparr>seq_counter := seq_counter st + 1\<rparr>}
   | Inr _ \<Rightarrow> afs_seq (fix_session (snd (ws_receive clock ts data st))) \<le> afs_seq (fix_session st) + 1"
  by (rule ws_receive_raises)

end
