(* ===== verification/UiStartup.thy ===== *)
theory UiStartup
  imports UiServer "HOL-Library.Multiset"
begin

text \<open>
  The seeding loop of \<open>lifespan\<close> in \<open>ui/main.py\<close>: that it ends as soon as every symbol has its
  snapshot, that the mirror is then exact, and what it does with the messages that are not
  snapshots.
\<close>

section \<open>Messages off the connection\<close>

lemma ui_recv_framed:
  assumes "framed m" "afs_buf (fix_session st) = []" "afs_reader (fix_session st) = Chunk m # net"
  shows "ui_recv timed st =
    (parse_fields m, st\<lparr>fix_session := (fix_session st)\<lparr>afs_reader := net\<rparr>\<rparr>)"
  using recv_framed_chunk [OF assms] by (simp add: ui_recv_def)

lemma process_md_snapshot_session:
  "process_md_snapshot ts_of msg (st\<lparr>fix_session := s\<rparr>) = (process_md_snapshot ts_of msg st)\<lparr>fix_session := s\<rparr>"
  by (simp add: process_md_snapshot_def Let_def split: option.split)

lemma process_md_snapshot_exec_log [simp]: "exec_log (process_md_snapshot ts_of msg st) = exec_log st"
  by (simp add: process_md_snapshot_def Let_def split: option.split)

abbreviation snap_symbol :: "fix_msg \<Rightarrow> string" where
  "snap_symbol msg \<equiv> msg_get msg ''55'' []"

abbreviation is_snapshot :: "fix_msg \<Rightarrow> bool" where
  "is_snapshot msg \<equiv> msg_tag msg ''35'' = Some ''W''"

text \<open>The loop reads exactly one snapshot per symbol and leaves the rest of the stream alone.\<close>

lemma seed_loop_snapshots:
  assumes "list_all2 (\<lambda>m p. framed m \<and> parse_fields m = Inr p) ms ps" "list_all is_snapshot ps"
    and "distinct pending" "mset (map snap_symbol ps) = mset pending"
    and "afs_buf (fix_session st) = []" "afs_reader (fix_session st) = map Chunk ms @ net"
  shows "seed_loop clock ts_of pending st =
    (Inr (), (fold (process_md_snapshot ts_of) ps st)
       \<lparr>fix_session := (fix_session st)\<lparr>afs_reader := net\<rparr>\<rparr>)"
  using assms
proof (induction ms ps arbitrary: pending st rule: list_all2_induct)
  case Nil
  then show ?case by (subst seed_loop.simps) simp
next
  case (Cons m ms p ps)
  let ?st = "process_md_snapshot ts_of p (st\<lparr>fix_session := (fix_session st)\<lparr>afs_reader := map Chunk ms @ net\<rparr>\<rparr>)"
  have p: "snap_symbol p \<in> set pending" using Cons.prems(3) by (metis list.set_intros(1) list.simps(9) set_mset_mset)
  have "removeAll (snap_symbol p) pending = remove1 (snap_symbol p) pending"
    using Cons.prems(2) by (simp add: distinct_remove1_removeAll)
  then have rest: "mset (map snap_symbol ps) = mset (removeAll (snap_symbol p) pending)"
    using Cons.prems(3) by (metis add_mset_remove_trivial list.simps(9) mset.simps(2) mset_remove1)
  have "ui_recv True st = (Inr p, st\<lparr>fix_session := (fix_session st)\<lparr>afs_reader := map Chunk ms @ net\<rparr>\<rparr>)"
    using ui_recv_framed [of m st "map Chunk ms @ net" True] Cons by simp
  then have "seed_loop clock ts_of pending st = seed_loop clock ts_of (removeAll (snap_symbol p) pending) ?st"
    using Cons.prems(1) p by (subst seed_loop.simps) auto
  also have "\<dots> = (Inr (), (fold (process_md_snapshot ts_of) ps ?st)\<lparr>fix_session := (fix_session ?st)\<lparr>afs_reader := net\<rparr>\<rparr>)"
    using Cons.prems rest by (intro Cons.IH) (simp_all add: distinct_removeAll)
  also have "fold (process_md_snapshot ts_of) ps ?st = (fold (process_md_snapshot ts_of) (p # ps) st)
      \<lparr>fix_session := (fix_session st)\<lparr>afs_reader := map Chunk ms @ net\<rparr>\<rparr>"
  proof -
    have "fold (process_md_snapshot ts_of) qs (u\<lparr>fix_session := s\<rparr>) =
        (fold (process_md_snapshot ts_of) qs u)\<lparr>fix_session := s\<rparr>" for qs u s
      by (induction qs arbitrary: u) (simp_all add: process_md_snapshot_session)
    then show ?thesis by (simp add: process_md_snapshot_session)
  qed
  finally show ?case by simp
qed


section \<open>The mirror after startup\<close>

definition entry_ids :: "md_entry list \<Rightarrow> string set" where
  "entry_ids es = set (map (\<lambda>e. the (e_eid e)) (filter is_resting es))"

text \<open>Snapshots of different symbols whose orders all have their own ids.\<close>

fun seeds_ok :: "string set \<Rightarrow> fix_msg list \<Rightarrow> bool" where
  "seeds_ok known [] = True"
| "seeds_ok known (p # ps) = (seed_ok known (entries_of p) \<and> seeds_ok (known \<union> entry_ids (entries_of p)) ps)"

lemma seed_ok_subset: "seed_ok known es \<Longrightarrow> known' \<subseteq> known \<Longrightarrow> seed_ok known' es"
  unfolding seed_ok_def by blast

lemma snapshot_entry_orders:
  assumes "is_resting e \<longrightarrow> (\<exists>i. e_eid e = Some i \<and> i \<noteq> [])"
    and "map_of (sa_orders (snapshot_entry ts_of symbol e a)) k = Some r"
  shows "map_of (sa_orders a) k = Some r \<or> o_symbol r = symbol \<and> is_resting e \<and> k = the (e_eid e)"
proof (cases "is_resting e")
  case True
  then obtain i where i: "e_eid e = Some i" "i \<noteq> []" using assms(1) by blast
  obtain bs p where "e_price e = Some p" "0 < entry_qty e" "e_type e = side_text bs"
    using True by (rule is_restingE)
  from snapshot_entry_resting [OF this i] assms(2) True i show ?thesis
    by (auto split: if_splits)
next
  case False
  then show ?thesis using assms(2) by (simp add: snapshot_entry_other)
qed

lemma snapshot_fold_orders:
  assumes "\<forall>e \<in> set es. is_resting e \<longrightarrow> (\<exists>i. e_eid e = Some i \<and> i \<noteq> [])"
    and "map_of (sa_orders (fold (snapshot_entry ts_of symbol) es a)) k = Some r"
  shows "map_of (sa_orders a) k = Some r \<or> o_symbol r = symbol \<and> k \<in> entry_ids es"
  using assms
proof (induction es arbitrary: a)
  case (Cons e es)
  then have "map_of (sa_orders (snapshot_entry ts_of symbol e a)) k = Some r \<or>
      o_symbol r = symbol \<and> k \<in> entry_ids es" by simp
  then show ?case
    using snapshot_entry_orders [of e ts_of symbol a k r] Cons.prems(1) by (auto simp: entry_ids_def)
qed simp

lemma snapshot_orders:
  assumes "seed_ok known (entries_of msg)"
    and "orders (process_md_snapshot ts_of msg st) k = Some r"
  shows "orders st k = Some r \<or> o_symbol r = snap_symbol msg \<and> k \<in> entry_ids (entries_of msg)"
proof (cases "map_of (order_book st) (snap_symbol msg)")
  case None
  then show ?thesis using assms(2) by (simp add: process_md_snapshot_def)
next
  case (Some sides)
  have ids: "\<forall>e \<in> set (entries_of msg). is_resting e \<longrightarrow> (\<exists>i. e_eid e = Some i \<and> i \<noteq> [])"
    using assms(1) by (auto simp: seed_ok_def)
  have "order_state (process_md_snapshot ts_of msg st) = sa_orders (fold (snapshot_entry ts_of (snap_symbol msg))
      (entries_of msg) \<lparr>sa_bids = [], sa_asks = [], sa_trades = [], sa_orders = order_state st\<rparr>)"
    using Some by (simp add: process_md_snapshot_def Let_def entries_of_def)
  then show ?thesis using assms(2) snapshot_fold_orders [OF ids] by fastforce
qed

lemma process_md_snapshot_book:
  "dom (map_of (order_book (process_md_snapshot ts_of msg st))) = dom (map_of (order_book st))"
  by (auto simp: process_md_snapshot_def Let_def split: option.splits if_splits)

lemma startup_fold:
  assumes "mirror_inv st" "distinct (map snap_symbol ps)"
    and "snap_symbol ` set ps \<subseteq> dom (map_of (order_book st))" "seeds_ok known ps"
    and "\<forall>k r. orders st k = Some r \<longrightarrow> k \<in> known \<and> o_symbol r \<notin> snap_symbol ` set ps"
  shows "mirror_inv (fold (process_md_snapshot ts_of) ps st) \<and>
    level_at (fold (process_md_snapshot ts_of) ps st) symbol bs price =
      (case find (\<lambda>p. snap_symbol p = symbol) ps of
         Some p \<Rightarrow> entries_at bs price (entries_of p) | None \<Rightarrow> level_at st symbol bs price)"
  using assms
proof (induction ps arbitrary: st known)
  case (Cons p ps)
  let ?st = "process_md_snapshot ts_of p st"
  have ok: "seed_ok known (entries_of p)" using Cons.prems(4) by simp
  have dom: "dom (orders st) \<subseteq> known" using Cons.prems(5) by auto
  have known: "map_of (order_book st) (snap_symbol p) \<noteq> None" using Cons.prems(3) by auto
  have fresh: "\<forall>k r. orders st k = Some r \<longrightarrow> o_symbol r \<noteq> snap_symbol p" using Cons.prems(5) by auto
  have seeds: "mirror_inv ?st \<and> level_at ?st s b q =
      (if s = snap_symbol p then entries_at b q (entries_of p) else level_at st s b q)" for s b q
    using snapshot_seeds [OF Cons.prems(1) known fresh seed_ok_subset [OF ok dom]] by blast
  have later: "k \<in> known \<union> entry_ids (entries_of p) \<and> o_symbol r \<notin> snap_symbol ` set ps"
    if "orders ?st k = Some r" for k r
    using snapshot_orders [OF ok that]
  proof
    assume "orders st k = Some r"
    then show ?thesis using Cons.prems(5) by simp
  next
    assume "o_symbol r = snap_symbol p \<and> k \<in> entry_ids (entries_of p)"
    then show ?thesis using Cons.prems(2) by auto
  qed
  have mem: "snap_symbol ` set ps \<subseteq> dom (map_of (order_book ?st))"
    using Cons.prems(3) process_md_snapshot_book [of ts_of p st] by auto
  have IH: "mirror_inv (fold (process_md_snapshot ts_of) ps ?st) \<and>
    level_at (fold (process_md_snapshot ts_of) ps ?st) symbol bs price =
      (case find (\<lambda>p. snap_symbol p = symbol) ps of
         Some p \<Rightarrow> entries_at bs price (entries_of p) | None \<Rightarrow> level_at ?st symbol bs price)"
    using Cons.prems(2,4) later seeds mem
    by (intro Cons.IH [where known = "known \<union> entry_ids (entries_of p)"]) simp_all
  have "find (\<lambda>p. snap_symbol p = symbol) ps = None" if "snap_symbol p = symbol"
    using Cons.prems(2) that by (simp add: find_None_iff) (metis image_eqI)
  then show ?case using IH seeds by (auto split: option.split)
qed simp

text \<open>
  C2: Startup. When the exchange answers the snapshot request with one snapshot per symbol, in any
  order, each order with its own id, the seeding loop ends without waiting for a timeout, leaves
  the rest of the stream unread for the reader task, and the mirror is exact: every level shows
  the sum of the entries of its symbol's snapshot.
\<close>

theorem startup_mirror_exact:
  assumes "list_all2 (\<lambda>m p. framed m \<and> parse_fields m = Inr p) ms ps" "list_all is_snapshot ps"
    and "distinct syms" "mset (map snap_symbol ps) = mset syms" "seeds_ok {} ps"
    and "afs_buf s = []" "afs_reader s = map Chunk ms @ net"
    and "r = seed_loop clock ts_of syms ((initial_ui syms ts)\<lparr>fix_session := s\<rparr>)"
  shows "fst r = Inr () \<and> afs_reader (fix_session (snd r)) = net \<and> mirror_inv (snd r) \<and>
    (\<forall>p \<in> set ps. level_at (snd r) (snap_symbol p) bs price = entries_at bs price (entries_of p))"
proof -
  let ?st = "initial_ui syms ts"
  let ?fin = "fold (process_md_snapshot ts_of) ps (?st\<lparr>fix_session := s\<rparr>)"
  have r: "r = (Inr (), ?fin\<lparr>fix_session := s\<lparr>afs_reader := net\<rparr>\<rparr>)"
    using seed_loop_snapshots [OF assms(1-4), of "?st\<lparr>fix_session := s\<rparr>" net] assms(6,7)
    by (simp add: assms(8))
  have dist: "distinct (map snap_symbol ps)" using assms(3,4) by (metis distinct_count_atmost_1 set_mset_mset)
  have same: "mirror_inv (u\<lparr>fix_session := x\<rparr>) = mirror_inv u" "level_at (u\<lparr>fix_session := x\<rparr>) = level_at u"
    for u :: ui_state and x
    by (simp_all add: mirror_inv_def books_ok_def levels_match_def level_at_def sides_at_def fun_eq_iff)
  have "sides_at sym ?st = sides_at sym (initial_md syms)" for sym
    by (simp add: initial_ui_def sides_at_def)
  then have start: "mirror_inv ?st"
    using mirror_inv_initial [of syms]
    by (simp add: mirror_inv_def books_ok_def levels_match_def level_at_def initial_ui_def)
       (simp add: initial_md_def)
  have "dom (map_of (order_book ?st)) = set syms"
    by (simp add: initial_ui_def initial_md_def map_of_dict_of dom_map_of_conv_image_fst image_image)
  moreover have "snap_symbol ` set ps = set syms" using assms(4) by (metis image_set set_mset_mset)
  ultimately have seeded: "mirror_inv ?fin \<and> level_at ?fin symbol bs price =
      (case find (\<lambda>p. snap_symbol p = symbol) ps of
         Some p \<Rightarrow> entries_at bs price (entries_of p)
       | None \<Rightarrow> level_at (?st\<lparr>fix_session := s\<rparr>) symbol bs price)" for symbol
    using startup_fold [of "?st\<lparr>fix_session := s\<rparr>" ps "{}"] start dist assms(5)
    by (simp add: same initial_ui_def [of syms ts, THEN arg_cong [where f = order_state]])
  have "find (\<lambda>q. snap_symbol q = snap_symbol p) ps = Some p" if "p \<in> set ps" for p
    using dist that by (induction ps) (auto simp: rev_image_eqI)
  then show ?thesis using seeded same by (simp add: r)
qed


text \<open>
  C35: Execution reports that arrive while the book is being seeded are taken off the stream and
  lost: the loop neither records nor forwards them, although the log is meant to hold all reports
  of the server's lifetime. A report at the head of the stream changes nothing but the stream, and
  the log after the loop is the log before it.
\<close>

theorem seeding_drops_exec_reports:
  assumes "framed m" "parse_fields m = Inr rep" "msg_tag rep ''35'' = Some ''8''" "pending \<noteq> []"
    and "afs_buf (fix_session st) = []" "afs_reader (fix_session st) = Chunk m # net"
  shows "seed_loop clock ts_of pending st =
           seed_loop clock ts_of pending (st\<lparr>fix_session := (fix_session st)\<lparr>afs_reader := net\<rparr>\<rparr>) \<and>
         exec_log (snd (seed_loop clock ts_of pending st)) = exec_log st"
proof -
  have log: "exec_log (snd (seed_loop clock ts_of pending u)) = exec_log u" for u
  proof (induction clock ts_of pending u rule: seed_loop.induct)
    case (1 clock ts_of pending st)
    have recv: "exec_log st' = exec_log st" if "ui_recv True st = (r, st')" for r st'
      using that by (auto simp: ui_recv_def split: prod.splits)
    have send: "exec_log st'' = exec_log st'" if "ui_send clock mt b st' = (r, st'')" for mt b r st' st''
      using that by (auto simp: ui_send_def split: prod.splits)
    show ?case
      using 1 recv send by (subst seed_loop.simps) (auto split: prod.split sum.split)
  qed
  have "ui_recv True st = (Inr rep, st\<lparr>fix_session := (fix_session st)\<lparr>afs_reader := net\<rparr>\<rparr>)"
    using ui_recv_framed [OF assms(1,5,6)] assms(2) by simp
  then have "seed_loop clock ts_of pending st =
      seed_loop clock ts_of pending (st\<lparr>fix_session := (fix_session st)\<lparr>afs_reader := net\<rparr>\<rparr>)"
    using assms(3,4) by (subst seed_loop.simps) simp
  with log show ?thesis by simp
qed

theorem seeding_drops_exec_reports_witness:
  "let st = (initial_ui [''AAPL''] 17)\<lparr>fix_session :=
        (AsyncFixSession_init ''S1'')\<lparr>afs_reader := [Chunk (example_exec ''2''), Expire]\<rparr>\<rparr>
   in exec_log (snd (seed_loop (\<lambda>n. ''T'') (\<lambda>s. None) [''AAPL''] st)) = []"
proof -
  have 1: "framed (example_exec ''2'')" by code_simp
  have 2: "parse_fields (example_exec ''2'') = Inr (projr (parse_fields (example_exec ''2'')))" by code_simp
  have 3: "msg_tag (projr (parse_fields (example_exec ''2''))) ''35'' = Some ''8''" by code_simp
  define st where "st = (initial_ui [''AAPL''] 17)\<lparr>fix_session :=
        (AsyncFixSession_init ''S1'')\<lparr>afs_reader := [Chunk (example_exec ''2''), Expire]\<rparr>\<rparr>"
  have st: "afs_buf (fix_session st) = []" "afs_reader (fix_session st) = Chunk (example_exec ''2'') # [Expire]"
    "exec_log st = []" by (simp_all add: st_def AsyncFixSession_init_def initial_ui_def)
  have "exec_log (snd (seed_loop (\<lambda>n. ''T'') (\<lambda>s. None) [''AAPL''] st)) = exec_log st"
    using seeding_drops_exec_reports [OF 1 2 3 _ st(1,2), of "[''AAPL'']" "\<lambda>n. ''T''" "\<lambda>s. None"] by blast
  then show ?thesis by (simp only: Let_def st(3) flip: st_def)
qed

definition example_body :: "(string \<times> string) list" where
  "example_body = [(''35'', ''W''), (''55'', ''AAPL''), (''269'', ''0''), (''270'', ''5''), (''271'', ''3''), (''278'', ''E1'')]"

lemma example_body_parse:
  "\<exists>p. parse_fields (frame_text example_body) = Inr p \<and> snap_symbol p = ''AAPL'' \<and> is_snapshot p \<and>
     entries_of p = [(new_entry ''0'')\<lparr>e_price := Some 5, e_qty := Some 3, e_eid := Some ''E1''\<rparr>]"
proof -
  have ok: "list_all field_ok example_body" by code_simp
  have "py_float ''5'' = Inr 5" by code_simp
  moreover have "py_float ''3'' = Inr 3" by code_simp
  moreover have "py_trunc 3 = 3" by (simp add: py_trunc_def)
  ultimately have num: "py_float ''5'' = Inr 5" "py_float ''3'' = Inr 3" "py_trunc 3 = 3" by simp_all
  obtain n ck where pairs: "pairs_of (frame_text example_body) =
      (''8'', ''FIX.4.2'') # (''9'', n) # example_body @ [(''10'', ck)]"
    using pairs_of_frame_text [OF ok] unfolding frame_fields_def append.simps by blast
  then show ?thesis
    by (simp add: parse_fields_def parse_dict_pairs dict_of_def example_body_def num push_entry_def
        msg_get_def dict_get_def entries_of_def)
qed

theorem startup_mirror_exact_witness:
  "let s = (AsyncFixSession_init ''S1'')\<lparr>afs_reader := [Chunk (frame_text example_body), Expire]\<rparr>;
       r = seed_loop (\<lambda>n. ''T'') (\<lambda>s. None) [''AAPL''] ((initial_ui [''AAPL''] 17)\<lparr>fix_session := s\<rparr>)
   in fst r = Inr () \<and> mirror_inv (snd r) \<and> level_at (snd r) ''AAPL'' Bids 5 = 3"
proof -
  define s where "s = (AsyncFixSession_init ''S1'')\<lparr>afs_reader := [Chunk (frame_text example_body), Expire]\<rparr>"
  obtain p where p: "parse_fields (frame_text example_body) = Inr p" "snap_symbol p = ''AAPL''" "is_snapshot p"
    "entries_of p = [(new_entry ''0'')\<lparr>e_price := Some 5, e_qty := Some 3, e_eid := Some ''E1''\<rparr>]"
    using example_body_parse by blast
  have "list_all field_plain example_body" by code_simp
  then have 1: "list_all2 (\<lambda>m p. framed m \<and> parse_fields m = Inr p) [frame_text example_body] [p]"
    using p(1) framed_frame_text by simp
  have 2: "list_all is_snapshot [p]" "distinct [''AAPL'']" "mset (map snap_symbol [p]) = mset [''AAPL'']"
    using p(2,3) by simp_all
  have 3: "seeds_ok {} [p]"
    by (simp add: p(4) seed_ok_def is_resting_def entry_qty_def new_entry_def)
  have 4: "afs_buf s = []" "afs_reader s = map Chunk [frame_text example_body] @ [Expire]"
    by (simp_all add: s_def AsyncFixSession_init_def)
  have "entries_at Bids 5 (entries_of p) = 3"
    by (simp add: p(4) entries_at_def resting_entries_def entry_qty_def new_entry_def)
  then show ?thesis
    using startup_mirror_exact [OF 1 2 3 4 refl, of "\<lambda>n. ''T''" "\<lambda>s. None" 17 Bids 5] p(2)
    by (simp add: Let_def flip: s_def)
qed

end
