(* ===== verification/UiSockets.thy ===== *)
theory UiSockets
  imports UiServer "HOL-Library.Multiset"
begin

text \<open>
  The concurrency of \<open>ui/main.py\<close>. One event loop runs the reader task (\<open>_fix_reader\<close>), the
  datagram endpoint, a handler per browser (\<open>websocket_endpoint\<close>) and the \<open>_safe_send\<close> tasks
  that the first two create. A step below is what runs between two suspension points (\<open>await\<close>)
  of the code: the handler of a new connection can be suspended after every report of the log it
  replays, and a task that has been created runs at any later time and in any order.
\<close>

section \<open>The steps\<close>

text \<open>\<open>asyncio.create_task(_safe_send(ws, text))\<close> for every connected browser.\<close>

definition broadcast :: "ws_msg \<Rightarrow> ui_state \<Rightarrow> ui_state" where
  "broadcast m st = st\<lparr>ws_tasks := ws_tasks st @ map (\<lambda>ws. (ws, m)) (ws_clients st)\<rparr>"

definition fix_reader_msg ::
  "(nat \<Rightarrow> string) \<Rightarrow> (string \<Rightarrow> rat option) \<Rightarrow> fix_msg \<Rightarrow> ui_state \<Rightarrow> unit res \<times> ui_state" where
  "fix_reader_msg clock ts_of msg st =
     (if msg_tag msg ''35'' = Some ''1'' then ui_send clock ''0'' (heartbeat_body msg) st
      else if msg_tag msg ''35'' = Some ''8'' then
        (Inr (), broadcast (WsExec msg) (st\<lparr>exec_log := exec_log st @ [msg]\<rparr>))
      else if msg_tag msg ''35'' = Some ''W'' then (Inr (), process_md_snapshot ts_of msg st)
      else (Inr (), st))"

text \<open>One round of the reader's loop.\<close>

definition fix_reader ::
  "(nat \<Rightarrow> string) \<Rightarrow> (string \<Rightarrow> rat option) \<Rightarrow> ui_state \<Rightarrow> unit res \<times> ui_state" where
  "fix_reader clock ts_of st =
     (case ui_recv False st of
        (Inl e, st') \<Rightarrow> (Inl e, st')
      | (Inr msg, st') \<Rightarrow> fix_reader_msg clock ts_of msg st')"

definition md_datagram :: "rat \<Rightarrow> bytes \<Rightarrow> ui_state \<Rightarrow> unit res \<times> ui_state" where
  "md_datagram now data st =
     (case datagram_received now data st of
        (Inl e, st') \<Rightarrow> (Inl e, st')
      | (Inr msgs, st') \<Rightarrow> (Inr (), fold broadcast msgs st'))"

definition deliver :: "nat \<Rightarrow> ws_msg \<Rightarrow> ui_state \<Rightarrow> ui_state" where
  "deliver ws m st = st\<lparr>ws_sent := ws_sent st @ [(ws, m)]\<rparr>"

definition discard_client :: "nat \<Rightarrow> ui_state \<Rightarrow> ui_state" where
  "discard_client ws st = st\<lparr>ws_clients := removeAll ws (ws_clients st)\<rparr>"

text \<open>\<open>_safe_send\<close>: \<open>ok\<close> tells whether \<open>send_text\<close> succeeded.\<close>

definition safe_send :: "bool \<Rightarrow> nat \<Rightarrow> ws_msg \<Rightarrow> ui_state \<Rightarrow> ui_state" where
  "safe_send ok ws m st =
     (let st' = st\<lparr>ws_tasks := remove1 (ws, m) (ws_tasks st)\<rparr>
      in if ok then deliver ws m st' else discard_client ws st')"

definition order_views :: "('a md_state_scheme) \<Rightarrow> order_view list" where
  "order_views st =
     map (\<lambda>(eid, s). \<lparr>v_eid = eid, v_symbol = o_symbol s, v_side = o_side s, v_price = o_price s, v_qty = o_qty s\<rparr>)
       (order_state st)"

definition snapshot_msg :: "'a md_state_scheme \<Rightarrow> ws_msg" where
  "snapshot_msg st =
     WsSnapshot (map fst (order_book st)) (book_snapshot st) (order_views st) (trade_history st)"

text \<open>
  The handler: accepting, one round of the replay loop, and the end of the connection. There is
  no suspension point between accepting and the first round.
\<close>

definition ws_connect :: "nat \<Rightarrow> ui_state \<Rightarrow> ui_state" where
  "ws_connect ws st =
     st\<lparr>ws_clients := List.insert ws (ws_clients st), ws_phases := AList.update ws (Replaying 0) (ws_phases st)\<rparr>"

definition ws_replay :: "nat \<Rightarrow> nat \<Rightarrow> ui_state \<Rightarrow> ui_state" where
  "ws_replay ws k st =
     (if k < length (exec_log st)
      then (deliver ws (WsExec (exec_log st ! k)) st)\<lparr>ws_phases := AList.update ws (Replaying (Suc k)) (ws_phases st)\<rparr>
      else (deliver ws (snapshot_msg st) st)\<lparr>ws_phases := AList.update ws Live (ws_phases st)\<rparr>)"

definition ws_close :: "nat \<Rightarrow> ui_state \<Rightarrow> ui_state" where
  "ws_close ws st = (discard_client ws st)\<lparr>ws_phases := AList.update ws Gone (ws_phases st)\<rparr>"

text \<open>
  A message from a live browser: an exception of the round ends the handler, whose \<open>finally\<close>
  removes the connection.
\<close>

definition ws_input :: "(nat \<Rightarrow> string) \<Rightarrow> nat \<Rightarrow> string \<Rightarrow> string \<Rightarrow> ui_state \<Rightarrow> ui_state" where
  "ws_input clock ws ts raw st =
     (case ws_text clock ts raw st of
        (Inl e, st') \<Rightarrow> ws_close ws st'
      | (Inr _, st') \<Rightarrow> st')"

text \<open>What the network has delivered to the reader by the time it runs.\<close>

definition with_input :: "net_event list \<Rightarrow> ui_state \<Rightarrow> ui_state" where
  "with_input evs st = st\<lparr>fix_session := (fix_session st)\<lparr>afs_reader := evs\<rparr>\<rparr>"

inductive ui_step :: "(nat \<Rightarrow> string) \<Rightarrow> (string \<Rightarrow> rat option) \<Rightarrow> ui_state \<Rightarrow> ui_state \<Rightarrow> bool"
  for clock ts_of where
  connect: "map_of (ws_phases st) ws = None \<Longrightarrow> ui_step clock ts_of st (ws_replay ws 0 (ws_connect ws st))"
| replay: "map_of (ws_phases st) ws = Some (Replaying k) \<Longrightarrow> ui_step clock ts_of st (ws_replay ws k st)"
| input: "map_of (ws_phases st) ws = Some Live \<Longrightarrow> ui_step clock ts_of st (ws_input clock ws ts raw st)"
| close: "map_of (ws_phases st) ws = Some ph \<Longrightarrow> ui_step clock ts_of st (ws_close ws st)"
| reader: "fix_reader clock ts_of (with_input evs st) = (r, st') \<Longrightarrow> ui_step clock ts_of st st'"
| datagram: "ui_step clock ts_of st (snd (md_datagram now data st))"
| task: "(ws, m) \<in> set (ws_tasks st) \<Longrightarrow> ui_step clock ts_of st (safe_send ok ws m st)"

inductive ui_run :: "(nat \<Rightarrow> string) \<Rightarrow> (string \<Rightarrow> rat option) \<Rightarrow> ui_state \<Rightarrow> ui_state \<Rightarrow> bool"
  for clock ts_of st0 where
  start: "ui_run clock ts_of st0 st0"
| step: "ui_run clock ts_of st0 st \<Longrightarrow> ui_step clock ts_of st st' \<Longrightarrow> ui_run clock ts_of st0 st'"

inductive_cases ui_stepE: "ui_step clock ts_of st st'"

text \<open>A server that has just started: its log may hold the reports of the logon.\<close>

definition no_clients :: "ui_state \<Rightarrow> bool" where
  "no_clients st \<longleftrightarrow> ws_clients st = [] \<and> ws_phases st = [] \<and> ws_tasks st = [] \<and> ws_sent st = []"

section \<open>Reports reaching a browser\<close>

fun exec_to :: "nat \<Rightarrow> nat \<times> ws_msg \<Rightarrow> fix_msg multiset" where
  "exec_to ws (w, WsExec r) = (if w = ws then {#r#} else {#})"
| "exec_to ws (w, m) = {#}"

abbreviation execs_to :: "nat \<Rightarrow> (nat \<times> ws_msg) list \<Rightarrow> fix_msg multiset" where
  "execs_to ws xs \<equiv> sum_list (map (exec_to ws) xs)"

text \<open>What a browser has received or is about to.\<close>

definition in_flight :: "nat \<Rightarrow> ui_state \<Rightarrow> fix_msg multiset" where
  "in_flight ws st = execs_to ws (ws_sent st) + execs_to ws (ws_tasks st)"

lemma exec_to_other [simp]: "w \<noteq> ws \<Longrightarrow> exec_to ws (w, m) = {#}"
  by (cases m) simp_all

lemma exec_to_snapshot [simp]: "exec_to ws (w, snapshot_msg st) = {#}"
  by (simp add: snapshot_msg_def)

lemma execs_to_broadcast:
  "distinct cs \<Longrightarrow> execs_to ws (map (\<lambda>w. (w, m)) cs) = (if ws \<in> set cs then exec_to ws (ws, m) else {#})"
proof (induction cs)
  case (Cons c cs)
  then show ?case by (cases "c = ws") simp_all
qed simp

text \<open>
  The invariant: the clients are pairwise different and known, and while a client is connected,
  the reports it has replayed and those that came in since are in flight; \<open>since ws\<close> is the length
  of the log when it connected. Once live, it is owed the whole log.
\<close>

fun phase_owes :: "nat \<Rightarrow> fix_msg list \<Rightarrow> ws_phase option \<Rightarrow> fix_msg multiset" where
  "phase_owes n rs None = {#}"
| "phase_owes n rs (Some (Replaying k)) = mset (take k rs) + mset (drop n rs)"
| "phase_owes n rs (Some Live) = mset rs"
| "phase_owes n rs (Some Gone) = {#}"

definition owed :: "(nat \<Rightarrow> nat) \<Rightarrow> nat \<Rightarrow> ui_state \<Rightarrow> fix_msg multiset" where
  "owed since ws st = phase_owes (since ws) (exec_log st) (map_of (ws_phases st) ws)"

definition sockets_inv :: "(nat \<Rightarrow> nat) \<Rightarrow> ui_state \<Rightarrow> bool" where
  "sockets_inv since st \<longleftrightarrow>
     distinct (ws_clients st) \<and>
     (\<forall>ws k. map_of (ws_phases st) ws = Some (Replaying k) \<longrightarrow>
        k \<le> length (exec_log st) \<and> since ws \<le> length (exec_log st)) \<and>
     (\<forall>ws \<in> set (ws_clients st). map_of (ws_phases st) ws \<noteq> None \<and> map_of (ws_phases st) ws \<noteq> Some Gone) \<and>
     (\<forall>ws \<in> set (ws_clients st). owed since ws st \<subseteq># in_flight ws st)"

text \<open>A step that leaves clients, phases, log and messages alone keeps the invariant.\<close>

lemma sockets_inv_frame:
  assumes "sockets_inv since st" "ws_clients st' = ws_clients st" "ws_phases st' = ws_phases st"
    and "exec_log st' = exec_log st" "\<And>ws. in_flight ws st \<subseteq># in_flight ws st'"
  shows "sockets_inv since st'"
proof -
  have "owed since ws st' = owed since ws st" for ws by (simp only: owed_def assms(3,4))
  then show ?thesis
    using assms unfolding sockets_inv_def by (metis subset_mset.order_trans)
qed

lemma sockets_inv_same:
  assumes "sockets_inv since st" "ws_clients st' = ws_clients st" "ws_phases st' = ws_phases st"
    and "exec_log st' = exec_log st" "ws_sent st' = ws_sent st" "ws_tasks st' = ws_tasks st"
  shows "sockets_inv since st'"
  using assms by (simp add: sockets_inv_def owed_def in_flight_def)

lemma broadcast_frame [simp]:
  "ws_clients (broadcast m st) = ws_clients st" "ws_phases (broadcast m st) = ws_phases st"
  "exec_log (broadcast m st) = exec_log st" "ws_sent (broadcast m st) = ws_sent st"
  by (simp_all add: broadcast_def)

lemma in_flight_broadcast:
  "distinct (ws_clients st) \<Longrightarrow>
   in_flight ws (broadcast m st) = in_flight ws st + (if ws \<in> set (ws_clients st) then exec_to ws (ws, m) else {#})"
  using execs_to_broadcast [of "ws_clients st" ws m]
  by (simp add: in_flight_def broadcast_def comp_def)


lemma sockets_inv_connect:
  assumes "sockets_inv since st"
  shows "sockets_inv (since(ws := length (exec_log st))) (ws_connect ws st)"
  using assms by (auto simp: sockets_inv_def ws_connect_def owed_def in_flight_def split: if_splits)

lemma sockets_inv_replay:
  assumes "sockets_inv since st" "map_of (ws_phases st) ws = Some (Replaying k)"
  shows "sockets_inv since (ws_replay ws k st)"
proof (cases "k < length (exec_log st)")
  case True
  then have st': "ws_replay ws k st = st\<lparr>ws_sent := ws_sent st @ [(ws, WsExec (exec_log st ! k))],
      ws_phases := AList.update ws (Replaying (Suc k)) (ws_phases st)\<rparr>"
    by (simp add: ws_replay_def deliver_def)
  have "in_flight w (ws_replay ws k st) = in_flight w st + (if w = ws then {#exec_log st ! k#} else {#})" for w
    by (simp add: st' in_flight_def)
  moreover have "owed since w (ws_replay ws k st) =
      owed since w st + (if w = ws then {#exec_log st ! k#} else {#})" for w
    using assms(2) True by (simp add: st' owed_def take_Suc_conv_app_nth)
  ultimately show ?thesis
    using assms True by (auto simp: sockets_inv_def) (auto simp: st' split: if_splits)
next
  case False
  then have st': "ws_replay ws k st = st\<lparr>ws_sent := ws_sent st @ [(ws, snapshot_msg st)],
      ws_phases := AList.update ws Live (ws_phases st)\<rparr>"
    by (simp add: ws_replay_def deliver_def)
  have same: "in_flight w (ws_replay ws k st) = in_flight w st" for w
    by (simp add: st' in_flight_def)
  have le: "owed since w (ws_replay ws k st) \<subseteq># owed since w st" for w
    using assms(2) False by (simp add: st' owed_def)
  have "owed since w (ws_replay ws k st) \<subseteq># in_flight w (ws_replay ws k st)" if "w \<in> set (ws_clients st)" for w
    using subset_mset.order_trans [OF le] assms(1) that by (simp add: sockets_inv_def same)
  then show ?thesis
    using assms(1) by (auto simp: sockets_inv_def) (auto simp: st' split: if_splits)
qed

lemma sockets_inv_close: "sockets_inv since st \<Longrightarrow> sockets_inv since (ws_close ws st)"
  by (auto simp: sockets_inv_def ws_close_def discard_client_def owed_def in_flight_def distinct_removeAll
      split: if_splits)

lemma sockets_inv_report:
  assumes "sockets_inv since st"
  shows "sockets_inv since (broadcast (WsExec msg) (st\<lparr>exec_log := exec_log st @ [msg]\<rparr>))" (is "sockets_inv since ?st'")
proof -
  let ?st1 = "st\<lparr>exec_log := exec_log st @ [msg]\<rparr>"
  have d: "distinct (ws_clients st)" using assms by (simp add: sockets_inv_def)
  have fl: "in_flight ws ?st' = in_flight ws st + {#msg#}" if "ws \<in> set (ws_clients st)" for ws
    using in_flight_broadcast [of ?st1 ws "WsExec msg"] d that by (simp add: in_flight_def)
  have ow: "owed since ws ?st' \<subseteq># owed since ws st + {#msg#}" for ws
  proof (cases "map_of (ws_phases st) ws")
    case (Some ph)
    then show ?thesis using assms by (cases ph) (auto simp: owed_def sockets_inv_def)
  qed (simp add: owed_def)
  have "owed since ws ?st' \<subseteq># in_flight ws ?st'" if "ws \<in> set (ws_clients st)" for ws
  proof -
    have "owed since ws st + {#msg#} \<subseteq># in_flight ws st + {#msg#}"
      using assms that by (simp add: sockets_inv_def)
    then show ?thesis using ow [of ws] fl [OF that] by (simp add: subset_mset.order_trans)
  qed
  then show ?thesis using assms by (fastforce simp: sockets_inv_def)
qed

lemma sockets_inv_broadcast: "sockets_inv since st \<Longrightarrow> sockets_inv since (broadcast m st)"
  by (rule sockets_inv_frame) (auto simp: in_flight_broadcast sockets_inv_def)

lemma sockets_inv_task:
  assumes "sockets_inv since st" "(ws, m) \<in> set (ws_tasks st)"
  shows "sockets_inv since (safe_send ok ws m st)"
proof -
  note rm = sum_list_map_remove1 [OF assms(2)]
  have "in_flight w (safe_send True ws m st) = in_flight w st" for w
    by (simp add: in_flight_def safe_send_def deliver_def rm ac_simps)
  then have ok: "sockets_inv since (safe_send True ws m st)"
    by (intro sockets_inv_frame [OF assms(1)]) (simp_all add: safe_send_def deliver_def)
  have fl: "in_flight w (safe_send False ws m st) = in_flight w st" if "w \<noteq> ws" for w
    using that by (simp add: in_flight_def safe_send_def discard_client_def rm [of "exec_to w"])
  have "owed since w (safe_send False ws m st) = owed since w st" for w
    by (simp add: owed_def safe_send_def discard_client_def)
  then have "sockets_inv since (safe_send False ws m st)"
    using assms(1) fl by (auto simp: sockets_inv_def) (auto simp: safe_send_def discard_client_def distinct_removeAll)
  with ok show ?thesis by (cases ok) simp_all
qed


lemma ui_recv_frame:
  "ui_recv timed st = (r, st') \<Longrightarrow> \<exists>s. st' = st\<lparr>fix_session := s\<rparr>"
  by (auto simp: ui_recv_def split: prod.splits)

lemma ui_send_frame: "\<exists>s. snd (ui_send clock mt body st) = st\<lparr>fix_session := s\<rparr>"
  by (cases "AsyncFixSession_send (clock (afs_seq (fix_session st))) mt body (fix_session st)")
     (auto simp: ui_send_def)

lemma sockets_inv_session: "sockets_inv since (st\<lparr>fix_session := s\<rparr>) = sockets_inv since st"
  by (simp add: sockets_inv_def owed_def in_flight_def)

lemma sockets_inv_send: "sockets_inv since st \<Longrightarrow> sockets_inv since (snd (ui_send clock mt body st))"
  using ui_send_frame [of clock mt body st] by (auto simp: sockets_inv_session)

lemma md_frames:
  "ws_clients (process_md_snapshot ts_of msg st) = ws_clients st"
  "ws_phases (process_md_snapshot ts_of msg st) = ws_phases st"
  "exec_log (process_md_snapshot ts_of msg st) = exec_log st"
  "ws_sent (process_md_snapshot ts_of msg st) = ws_sent st"
  "ws_tasks (process_md_snapshot ts_of msg st) = ws_tasks st"
  by (simp_all add: process_md_snapshot_def Let_def split: option.split)

lemma sockets_inv_snapshot: "sockets_inv since st \<Longrightarrow> sockets_inv since (process_md_snapshot ts_of msg st)"
  by (erule sockets_inv_same) (simp_all add: md_frames)

lemma sockets_inv_reader_msg:
  "sockets_inv since st \<Longrightarrow> sockets_inv since (snd (fix_reader_msg clock ts_of msg st))"
  by (auto simp: fix_reader_msg_def sockets_inv_send sockets_inv_report sockets_inv_snapshot)

lemma sockets_inv_reader:
  assumes "sockets_inv since st" "fix_reader clock ts_of (with_input evs st) = (r, st')"
  shows "sockets_inv since st'"
proof -
  obtain q st1 where recv: "ui_recv False (with_input evs st) = (q, st1)"
    by (cases "ui_recv False (with_input evs st)")
  have st1: "sockets_inv since st1"
    using ui_recv_frame [OF recv] assms(1) by (auto simp: with_input_def sockets_inv_session)
  then show ?thesis
    using assms(2) recv sockets_inv_reader_msg [OF st1, of clock ts_of]
    by (cases q) (auto simp: fix_reader_def split: prod.splits dest: sym [THEN arg_cong [where f = snd]])
qed

lemma bump_level_frames:
  "ws_clients (bump_level symbol bs price d st) = ws_clients st"
  "ws_phases (bump_level symbol bs price d st) = ws_phases st"
  "exec_log (bump_level symbol bs price d st) = exec_log st"
  "ws_sent (bump_level symbol bs price d st) = ws_sent st"
  "ws_tasks (bump_level symbol bs price d st) = ws_tasks st"
  by (simp_all add: bump_level_def Let_def)

lemma levels_frames:
  "ws_clients (snd (levels symbol side st)) = ws_clients st"
  "ws_phases (snd (levels symbol side st)) = ws_phases st"
  "exec_log (snd (levels symbol side st)) = exec_log st"
  "ws_sent (snd (levels symbol side st)) = ws_sent st"
  "ws_tasks (snd (levels symbol side st)) = ws_tasks st"
  by (simp_all add: levels_def)

lemma sockets_inv_apply_md:
  assumes "sockets_inv since st"
  shows "sockets_inv since (apply_md evt side symbol price qty eid st)"
proof -
  let ?st' = "apply_md evt side symbol price qty eid st"
  have "ws_clients ?st' = ws_clients st \<and> ws_phases ?st' = ws_phases st \<and> exec_log ?st' = exec_log st \<and>
      ws_sent ?st' = ws_sent st \<and> ws_tasks ?st' = ws_tasks st"
    unfolding apply_md_def
    by (auto simp: case_prod_beta Let_def levels_frames bump_level_frames split: option.split)
  then show ?thesis by (intro sockets_inv_same [OF assms]) simp_all
qed

lemma sockets_inv_datagram:
  assumes "sockets_inv since st"
  shows "sockets_inv since (snd (md_datagram now data st))"
proof -
  have "sockets_inv since (snd (datagram_received now data st))"
  proof -
    have "sockets_inv since (record_trade now symbol price u) = sockets_inv since u" for symbol price u
      by (simp add: record_trade_def sockets_inv_def owed_def in_flight_def)
    then show ?thesis
      using assms sockets_inv_apply_md [OF assms]
      by (auto simp: datagram_received_def Let_def split: sum.split)
  qed
  moreover have "sockets_inv since (fold broadcast msgs u)" if "sockets_inv since u" for msgs u
    using that by (induction msgs arbitrary: u) (simp_all add: sockets_inv_broadcast)
  ultimately show ?thesis by (auto simp: md_datagram_def split: prod.split sum.split)
qed

lemma sockets_inv_input:
  assumes "sockets_inv since st"
  shows "sockets_inv since (ws_input clock ws ts raw st)"
proof -
  have upd: "sockets_inv since (st\<lparr>seq_counter := n\<rparr>)" for n
    using assms by (simp add: sockets_inv_def owed_def in_flight_def)
  have "sockets_inv since (snd (ws_receive clock ts data st))" for data
  proof -
    obtain r st1 where r: "ws_request ts data st = (r, st1)" by (cases "ws_request ts data st")
    then have st1: "sockets_inv since st1"
      using assms upd by (auto simp: ws_request_def Let_def split: sum.splits if_splits)
    then show ?thesis
      using r sockets_inv_send [OF st1] by (auto simp: ws_receive_def split: sum.split option.split)
  qed
  then have "sockets_inv since (snd (ws_text clock ts raw st))"
    using assms by (auto simp: ws_text_def split: sum.split json.split)
  then show ?thesis
    by (auto simp: ws_input_def sockets_inv_close split: prod.split sum.split)
qed

lemma sockets_inv_accept:
  assumes "sockets_inv since st"
  shows "sockets_inv (since(ws := length (exec_log st))) (ws_replay ws 0 (ws_connect ws st))"
  by (rule sockets_inv_replay [OF sockets_inv_connect [OF assms]]) (simp add: ws_connect_def)

lemma sockets_inv_step:
  "ui_step clock ts_of st st' \<Longrightarrow> sockets_inv since st \<Longrightarrow> \<exists>since'. sockets_inv since' st'"
  by (erule ui_stepE)
     (blast intro: sockets_inv_accept sockets_inv_replay sockets_inv_input sockets_inv_close
       sockets_inv_reader sockets_inv_datagram sockets_inv_task)+

lemma sockets_inv_run:
  "ui_run clock ts_of st0 st \<Longrightarrow> no_clients st0 \<Longrightarrow> \<exists>since. sockets_inv since st"
proof (induction rule: ui_run.induct)
  case start
  then show ?case by (auto simp: no_clients_def sockets_inv_def)
next
  case (step st st')
  then show ?case using sockets_inv_step by blast
qed

text \<open>
  C4: No execution report is lost on a connected browser. However the reader, the datagrams, the
  replay loops, the sends and the disconnections of any number of browsers interleave, once the
  handler of a browser has finished its replay, every report of the log has been sent to it or
  has a task that will send it, as often as the log holds it.
\<close>

theorem exec_reports_not_lost:
  assumes "no_clients st0" "ui_run clock ts_of st0 st"
    and "ws \<in> set (ws_clients st)" "map_of (ws_phases st) ws = Some Live"
  shows "mset (exec_log st) \<subseteq># execs_to ws (ws_sent st) + execs_to ws (ws_tasks st)"
proof -
  obtain since where "sockets_inv since st" using sockets_inv_run [OF assms(2,1)] by blast
  then show ?thesis using assms(3,4) by (auto simp: sockets_inv_def owed_def in_flight_def)
qed


lemma reader_report:
  assumes "framed m" "parse_fields m = Inr r" "msg_tag r ''35'' = Some ''8''" "afs_buf (fix_session st) = []"
  shows "ui_step clock ts_of st
    (broadcast (WsExec r) ((with_input [] st)\<lparr>exec_log := exec_log st @ [r]\<rparr>))"
proof (rule ui_step.reader)
  have "ui_recv False (with_input [Chunk m] st) = (Inr r, with_input [] st)"
    using recv_framed_chunk [OF assms(1), of "fix_session (with_input [Chunk m] st)" "[]" False] assms(2,4)
    by (simp add: ui_recv_def with_input_def)
  then show "fix_reader clock ts_of (with_input [Chunk m] st) =
      (Inr (), broadcast (WsExec r) ((with_input [] st)\<lparr>exec_log := exec_log st @ [r]\<rparr>))"
    using assms(3) by (simp add: fix_reader_def fix_reader_msg_def with_input_def)
qed

text \<open>
  C34: The other direction fails: a report that arrives while the replay of a new connection is
  suspended reaches that browser twice, once because the browser is already in the set of
  clients and once because the loop walks the live log. There is a run of the server, from a
  start with one report in its log, in which the log holds a report once and it was sent twice.
\<close>

theorem exec_report_sent_twice:
  "\<exists>st0 st r. no_clients st0 \<and> ui_run clock ts_of st0 st \<and> count (mset (exec_log st)) r = 1 \<and>
     count (execs_to 0 (ws_sent st)) r = 2 \<and> map_of (ws_phases st) 0 = Some Live"
proof -
  define m r0 r where "m = example_exec ''2''" and "r0 = projr (parse_fields (example_exec ''0''))"
    and "r = projr (parse_fields (example_exec ''2''))"
  have m: "framed m" unfolding m_def by code_simp
  have p: "parse_fields m = Inr r" unfolding m_def r_def by code_simp
  have t: "msg_tag r ''35'' = Some ''8''" unfolding r_def by code_simp
  have ne: "r0 \<noteq> r" unfolding r0_def r_def by code_simp
  define st0 where "st0 = (initial_ui [] 17)\<lparr>exec_log := [r0]\<rparr>"
  define st1 where "st1 = ws_replay 0 0 (ws_connect 0 st0)"
  define st2 where "st2 = broadcast (WsExec r) ((with_input [] st1)\<lparr>exec_log := exec_log st1 @ [r]\<rparr>)"
  define st3 where "st3 = ws_replay 0 1 st2"
  define st4 where "st4 = safe_send True 0 (WsExec r) st3"
  define st5 where "st5 = ws_replay 0 2 st4"
  note defs = st0_def st1_def st2_def st3_def st4_def st5_def
  have st1: "map_of (ws_phases st0) 0 = None" "ws_phases st1 = [(0, Replaying 1)]" "ws_clients st1 = [0]"
    "ws_tasks st1 = []" "ws_sent st1 = [(0, WsExec r0)]" "exec_log st1 = [r0]" "afs_buf (fix_session st1) = []"
    by (simp_all add: defs initial_ui_def ws_replay_def ws_connect_def deliver_def AsyncFixSession_init_def)
  have st3: "ws_phases st2 = [(0, Replaying 1)]" "ws_phases st3 = [(0, Replaying 2)]" "ws_tasks st3 = [(0, WsExec r)]"
    "ws_sent st3 = [(0, WsExec r0), (0, WsExec r)]" "exec_log st3 = [r0, r]"
    using st1 by (simp_all add: st2_def st3_def broadcast_def with_input_def ws_replay_def deliver_def)
  have st5: "ws_phases st4 = [(0, Replaying 2)]" "map_of (ws_phases st5) 0 = Some Live" "exec_log st5 = [r0, r]"
    "ws_sent st5 = [(0, WsExec r0), (0, WsExec r), (0, WsExec r), (0, snapshot_msg st4)]"
    using st3 by (simp_all add: st4_def st5_def safe_send_def ws_replay_def deliver_def)
  have "ui_step clock ts_of st0 st1" unfolding st1_def by (rule ui_step.connect [OF st1(1)])
  then have "ui_run clock ts_of st0 st1" by (rule ui_run.step [OF ui_run.start])
  moreover have "ui_step clock ts_of st1 st2" unfolding st2_def by (rule reader_report [OF m p t st1(7)])
  ultimately have "ui_run clock ts_of st0 st2" by (rule ui_run.step)
  moreover have "ui_step clock ts_of st2 st3" unfolding st3_def by (rule ui_step.replay) (simp add: st3(1))
  ultimately have "ui_run clock ts_of st0 st3" by (rule ui_run.step)
  moreover have "ui_step clock ts_of st3 st4" unfolding st4_def by (rule ui_step.task) (simp add: st3(3))
  ultimately have "ui_run clock ts_of st0 st4" by (rule ui_run.step)
  moreover have "ui_step clock ts_of st4 st5" unfolding st5_def by (rule ui_step.replay) (simp add: st5(1))
  ultimately have "ui_run clock ts_of st0 st5" by (rule ui_run.step)
  moreover have "no_clients st0" by (simp add: no_clients_def st0_def initial_ui_def)
  ultimately show ?thesis using st5 ne by (intro exI [of _ st0] exI [of _ st5] exI [of _ r]) simp
qed

theorem exec_reports_not_lost_witness:
  "\<exists>st. ui_run (\<lambda>n. ''T'') (\<lambda>s. None) (initial_ui [] 17) st \<and> 0 \<in> set (ws_clients st) \<and>
     map_of (ws_phases st) 0 = Some Live \<and>
     mset (exec_log st) \<subseteq># execs_to 0 (ws_sent st) + execs_to 0 (ws_tasks st)"
proof -
  let ?start = "initial_ui [] 17" and ?st = "ws_replay 0 0 (ws_connect 0 (initial_ui [] 17))"
  have 0: "no_clients ?start" by (simp add: no_clients_def initial_ui_def)
  have "ui_step (\<lambda>n. ''T'') (\<lambda>s. None) ?start ?st" by (rule ui_step.connect) (simp add: initial_ui_def)
  then have run: "ui_run (\<lambda>n. ''T'') (\<lambda>s. None) ?start ?st" by (rule ui_run.step [OF ui_run.start])
  have live: "0 \<in> set (ws_clients ?st)" "map_of (ws_phases ?st) 0 = Some Live"
    by (simp_all add: ws_replay_def ws_connect_def deliver_def initial_ui_def)
  show ?thesis using run live exec_reports_not_lost [OF 0 run live] by blast
qed

end
