(* ===== verification/UiSettles.thy ===== *)
theory UiSettles
  imports UiSockets
begin

text \<open>
  What happens to \<open>ui/main.py\<close> when nothing more arrives from outside: the replay loops of the
  handlers and the \<open>_safe_send\<close> tasks are all that is left to run. They come to an end, after a
  number of steps that is known in advance, and then every connected browser has everything.
\<close>

section \<open>Steps of the server alone\<close>

inductive quiet_step :: "ui_state \<Rightarrow> ui_state \<Rightarrow> bool" where
  replay: "map_of (ws_phases st) ws = Some (Replaying k) \<Longrightarrow> quiet_step st (ws_replay ws k st)"
| task: "(ws, m) \<in> set (ws_tasks st) \<Longrightarrow> quiet_step st (safe_send ok ws m st)"

inductive_cases quiet_stepE: "quiet_step st st'"

text \<open>The steps that are left: one per task, and one per report and per snapshot still to replay.\<close>

fun phase_work :: "nat \<Rightarrow> ws_phase \<Rightarrow> nat" where
  "phase_work n (Replaying k) = Suc (n - k)"
| "phase_work n Live = 0"
| "phase_work n Gone = 0"

definition work_left :: "ui_state \<Rightarrow> nat" where
  "work_left st =
     length (ws_tasks st) + (\<Sum>(ws, ph) \<leftarrow> ws_phases st. phase_work (length (exec_log st)) ph)"

lemma sum_update:
  "map_of d k = Some v \<Longrightarrow>
   (\<Sum>(j, x) \<leftarrow> AList.update k v' d. f x) + f v = (\<Sum>(j, x) \<leftarrow> d. f x) + (f v' :: nat)"
  by (induction d) (auto split: if_splits)

lemma quiet_step_ui_step: "quiet_step st st' \<Longrightarrow> ui_step clock ts_of st st'"
  by (erule quiet_stepE) (auto intro: ui_step.intros)

lemma quiet_step_work: "quiet_step st st' \<Longrightarrow> work_left st = Suc (work_left st')"
proof (erule quiet_stepE)
  fix ws k
  assume st': "st' = ws_replay ws k st" and ph: "map_of (ws_phases st) ws = Some (Replaying k)"
  show "work_left st = Suc (work_left st')"
    using sum_update [OF ph, of "phase_work (length (exec_log st))" "Replaying (Suc k)"]
      sum_update [OF ph, of "phase_work (length (exec_log st))" Live]
    by (auto simp: st' work_left_def ws_replay_def deliver_def)
next
  fix ws m ok
  assume st': "st' = safe_send ok ws m st" and m: "(ws, m) \<in> set (ws_tasks st)"
  have "0 < length (ws_tasks st)" using m by (auto dest: length_pos_if_in_set)
  then have "length (remove1 (ws, m) (ws_tasks st)) + 1 = length (ws_tasks st)" using m by (simp add: length_remove1)
  then show "work_left st = Suc (work_left st')"
    by (simp add: st' work_left_def safe_send_def deliver_def discard_client_def Let_def)
qed

lemma quiet_steps_work: "(quiet_step ^^ n) st st' \<Longrightarrow> work_left st = n + work_left st'"
  by (induction n arbitrary: st') (auto dest: quiet_step_work)

lemma quiet_steps_run:
  "(quiet_step ^^ n) st st' \<Longrightarrow> ui_run clock ts_of st0 st \<Longrightarrow> ui_run clock ts_of st0 st'"
  by (induction n arbitrary: st') (auto intro: ui_run.step quiet_step_ui_step)

lemma quiet_step_log: "quiet_step st st' \<Longrightarrow> exec_log st' = exec_log st"
  by (erule quiet_stepE) (simp_all add: ws_replay_def deliver_def safe_send_def discard_client_def Let_def)

text \<open>A state in which nothing is left to run: no task, and no handler in its replay.\<close>

lemma no_quiet_step:
  assumes "\<nexists>st'. quiet_step st st'"
  shows "ws_tasks st = []" "map_of (ws_phases st) ws \<noteq> Some (Replaying k)"
proof -
  show "ws_tasks st = []"
    using assms quiet_step.task [of _ _ st True] by (metis list.set_intros(1) neq_Nil_conv surj_pair)
  show "map_of (ws_phases st) ws \<noteq> Some (Replaying k)" using assms quiet_step.replay [of st ws k] by auto
qed

text \<open>
  C6: The server comes to rest, and then every browser has everything. After any run, if nothing
  more arrives, the server alone takes at most \<open>work_left\<close> further steps, in whatever order its
  handlers and tasks are scheduled and whichever sends fail; and when no step is left, every
  browser that is still connected has been sent every execution report of the log.
\<close>

theorem server_settles:
  assumes "no_clients st0" "ui_run clock ts_of st0 st" "(quiet_step ^^ n) st st'"
  shows "n \<le> work_left st \<and>
    ((\<nexists>st''. quiet_step st' st'') \<longrightarrow>
      exec_log st' = exec_log st \<and> (\<forall>ws \<in> set (ws_clients st'). mset (exec_log st) \<subseteq># execs_to ws (ws_sent st')))"
proof (intro conjI impI ballI)
  show "n \<le> work_left st" using quiet_steps_work [OF assms(3)] by simp
  show log: "exec_log st' = exec_log st"
    using assms(3) by (induction n arbitrary: st') (auto dest: quiet_step_log)
  fix ws assume stuck: "\<nexists>st''. quiet_step st' st''" and ws: "ws \<in> set (ws_clients st')"
  obtain since where inv: "sockets_inv since st'"
    using sockets_inv_run [OF quiet_steps_run [OF assms(3,2)] assms(1)] by blast
  then have live: "map_of (ws_phases st') ws = Some Live"
    using ws no_quiet_step(2) [OF stuck] unfolding sockets_inv_def by (metis not_None_eq ws_phase.exhaust)
  then show "mset (exec_log st) \<subseteq># execs_to ws (ws_sent st')"
    using bspec [OF conjunct2 [OF conjunct2 [OF conjunct2 [OF inv [unfolded sockets_inv_def]]]] ws] no_quiet_step(1) [OF stuck] log
    by (simp add: owed_def in_flight_def live)
qed

theorem server_settles_witness:
  "\<exists>st st' r. ui_run (\<lambda>n. ''T'') (\<lambda>s. None) ((initial_ui [] 17)\<lparr>exec_log := [r]\<rparr>) st \<and> (quiet_step ^^ 1) st st' \<and>
     1 \<le> work_left st \<and> ws_clients st' = [0] \<and> mset [r] \<subseteq># execs_to 0 (ws_sent st')"
proof -
  define r where "r = \<lparr>fm_fields = [(''35'', ''8'')], fm_entries = None\<rparr>"
  define st0 where "st0 = (initial_ui [] 17)\<lparr>exec_log := [r]\<rparr>"
  define st where "st = ws_replay 0 0 (ws_connect 0 st0)"
  define st' where "st' = ws_replay 0 1 st"
  have 0: "no_clients st0" by (simp add: no_clients_def st0_def initial_ui_def)
  have "ui_step (\<lambda>n. ''T'') (\<lambda>s. None) st0 st"
    unfolding st_def by (rule ui_step.connect) (simp add: st0_def initial_ui_def)
  then have run: "ui_run (\<lambda>n. ''T'') (\<lambda>s. None) st0 st" by (rule ui_run.step [OF ui_run.start])
  have st: "ws_phases st = [(0, Replaying 1)]" "exec_log st = [r]" "ws_clients st = [0]" "ws_tasks st = []"
    by (simp_all add: st_def st0_def ws_replay_def ws_connect_def deliver_def initial_ui_def)
  have st': "ws_phases st' = [(0, Live)]" "ws_clients st' = [0]" "ws_tasks st' = []"
    using st by (simp_all add: st'_def ws_replay_def deliver_def)
  have "quiet_step st st'" unfolding st'_def by (rule quiet_step.replay) (simp add: st)
  then have steps: "(quiet_step ^^ 1) st st'" by (simp add: OO_def)
  have stuck: "\<nexists>u. quiet_step st' u" using st' by (auto elim!: quiet_stepE split: if_splits)
  show ?thesis
    using server_settles [OF 0 run steps] stuck run steps st st' unfolding st0_def by fastforce
qed

end
