(* ===== verification/UiOrders.thy ===== *)
theory UiOrders
  imports UiSockets
begin

text \<open>
  Order entry from the text a browser sends to the bytes on the FIX connection, and what a bad
  text does to the server: \<open>websocket_endpoint\<close> of \<open>ui/main.py\<close> with \<open>json.loads\<close> in front.
\<close>

section \<open>Prices and quantities on the wire\<close>

lemma repr_float_field: "finite_double x \<Longrightarrow> field_ok (''44'', repr_float x)"
proof -
  assume "finite_double x"
  then obtain sg i fr ex where r: "repr_float x = sg @ i @ fr @ ex" "sg = [] \<or> sg = ''-''" "int_part i" "frac_part fr" "exp_part ex"
    using repr_float_literal by blast
  have dig: "list_all (\<lambda>c. is_ascii c \<and> c \<noteq> SEP) s" if "list_all is_digit s" for s
    using that by (rule list.pred_mono_strong) (auto simp: is_digit_ascii)
  have sym: "list_all (\<lambda>c. is_ascii c \<and> c \<noteq> SEP) ''-+.e''" by (simp add: is_ascii_def)
  have "list_all (\<lambda>c. is_ascii c \<and> c \<noteq> SEP) (repr_float x)"
    using r(2-5) dig sym unfolding r(1) by (auto simp: int_part_def frac_part_def exp_part_def)
  then show ?thesis by (auto simp: field_ok_def list_all_iff is_ascii_def)
qed

lemma str_int_field: "field_ok (k, str_int n) \<longleftrightarrow> field_ok (k, [])"
proof -
  have "list_all is_ascii (str_int n)" "SEP \<notin> set (str_int n)"
    by (auto simp: str_int_def is_ascii_def notin_str_nat)
  then show ?thesis by (simp add: field_ok_def)
qed

text \<open>
  C3: An order is sent exactly as it was typed. When a browser sends the JSON text of a new order
  with a price that is a finite double and an integer quantity, one NewOrderSingle goes out with
  the symbol and the side, and reading the price and the quantity from the wire gives back
  exactly the price and the quantity of the text.
\<close>

theorem order_text_to_wire:
  assumes "json_loads raw = Inr (JObj data)" "map_of data ''type'' = Some (JStr ''new_order'')"
    and "map_of data ''symbol'' = Some (JStr symbol)" "map_of data ''side'' = Some side"
    and "map_of data ''price'' = Some (JFloat price)" "finite_double price" "map_of data ''qty'' = Some (JInt qty)"
    and "field_ok (''55'', symbol)" "field_ok (''60'', ts)" "field_ok (''11'', comp_id st)"
    and "field_ok (''49'', afs_sender (fix_session st))" "field_ok (''52'', clock (afs_seq (fix_session st)))"
  shows "\<exists>m px qt. ws_text clock ts raw st =
      (Inr (), st\<lparr>seq_counter := seq_counter st + 1, fix_session := (fix_session st)
         \<lparr>afs_seq := afs_seq (fix_session st) + 1, afs_writer := afs_writer (fix_session st) @ [m]\<rparr>\<rparr>) \<and>
    map_of (parse_dict m) ''35'' = Some ''D'' \<and> map_of (parse_dict m) ''55'' = Some symbol \<and>
    map_of (parse_dict m) ''54'' = Some (if side = JStr ''buy'' then ''1'' else ''2'') \<and>
    map_of (parse_dict m) ''44'' = Some px \<and> py_float px = Inr price \<and>
    map_of (parse_dict m) ''38'' = Some qt \<and> py_int qt = Inr qty"
proof -
  let ?id = "clord_id (comp_id st) (session_ts st) (seq_counter st + 1)"
  let ?body = "[(''11'', ?id), (''21'', ''1''), (''55'', symbol), (''54'', fix_side side), (''40'', ''2''),
    (''44'', repr_float price), (''38'', str_int qty), (''60'', ts)]"
  have body: "new_order_body ?id ts data = Inr ?body"
    using assms(3-7) by (simp add: new_order_body_def dict_index_def)
  have "field_ok (''11'', ?id)"
    using assms(10) by (simp add: clord_id_def field_ok_def notin_str_nat) (simp add: is_ascii_def)
  moreover have "field_ok (''34'', str_nat n)" for n by (simp add: field_ok_def notin_str_nat) (simp add: is_ascii_def)
  ultimately have ok: "list_all field_ok (message_fields (clock (afs_seq (fix_session st))) ''D'' (afs_seq (fix_session st))
      ?body (afs_sender (fix_session st)))"
    using assms(8-12) repr_float_field [OF assms(6)]
    by (simp add: message_fields_def header_fields_def str_int_field) (simp add: field_ok_def is_ascii_def fix_side_def)
  have "ws_text clock ts raw st = ws_receive clock ts data st" using assms(1) by (simp add: ws_text_def)
  then show ?thesis
    using new_order_sent [where clock = clock, OF assms(2-5,7) body ok] py_float_repr [OF assms(6)] py_int_str_int [of qty] by auto
qed

theorem order_text_to_wire_witness:
  "\<exists>m px. afs_writer (fix_session (snd (ws_text (\<lambda>n. ''T'') ''T'' (json_dumps (JObj example_order))
       ((initial_ui [''AAPL''] 17)\<lparr>comp_id := ''S1'', fix_session := AsyncFixSession_init ''S1''\<rparr>)))) = [m] \<and>
     map_of (parse_dict m) ''44'' = Some px \<and> py_float px = Inr (301 / 2)"
proof -
  let ?st = "(initial_ui [''AAPL''] 17)\<lparr>comp_id := ''S1'', fix_session := AsyncFixSession_init ''S1''\<rparr>"
  have "is_double (of_int 301 * 2 powi (- 1))" by (rule is_doubleI) simp_all
  then have fd: "finite_double (301 / 2)"
    using power_increasing [of 53 1024 "2 :: rat"] by (simp add: finite_double_def power_int_minus)
  then have raw: "json_loads (json_dumps (JObj example_order)) = Inr (JObj example_order)"
    by (intro json_loads_dumps) (simp add: example_order_def)
  have vals: "map_of example_order ''type'' = Some (JStr ''new_order'')" "map_of example_order ''symbol'' = Some (JStr ''AAPL'')"
    "map_of example_order ''side'' = Some (JStr ''buy'')" "map_of example_order ''price'' = Some (JFloat (301 / 2))"
    "map_of example_order ''qty'' = Some (JInt 10)"
    by (simp_all add: example_order_def)
  have "field_ok (''55'', ''AAPL'')" "field_ok (''60'', ''T'')" "field_ok (''11'', comp_id ?st)"
    "field_ok (''49'', afs_sender (fix_session ?st))" "field_ok (''52'', (\<lambda>n. ''T'') (afs_seq (fix_session ?st)))"
    by (simp_all add: field_ok_def is_ascii_def AsyncFixSession_init_def)
  from order_text_to_wire [where clock = "\<lambda>n. ''T''", OF raw vals(1-4) fd vals(5) this]
  show ?thesis by (auto simp: AsyncFixSession_init_def)
qed

section \<open>Bad texts\<close>

lemma scan_string_raises: "scan_string s = Inl e \<Longrightarrow> e = ValueError"
  by (induction s rule: scan_string.induct) (auto simp: res_bind_def split: if_splits option.splits sum.splits prod.splits)

lemma scan_number_raises: "scan_number s = Inl e \<Longrightarrow> e = ValueError \<or> e = NonFinite"
proof -
  have int: "py_int t = Inl e \<Longrightarrow> e = ValueError" for t
    by (auto simp: py_int_def Let_def split: list.splits if_splits option.splits)
  have "finite_fl v = Inl e \<Longrightarrow> e = NonFinite" for v by (simp add: finite_fl_def Let_def split: if_splits)
  then have float: "py_float t = Inl e \<Longrightarrow> e = ValueError \<or> e = NonFinite" for t
    by (auto simp: py_float_def Let_def split: list.splits if_splits option.splits)
  assume "scan_number s = Inl e"
  then show ?thesis
    by (auto simp: scan_number_def Let_def res_bind_def dest: int float split: if_splits sum.splits)
qed

lemma parse_const_raises: "parse_const w v s = Inl e \<Longrightarrow> e = ValueError"
  by (auto simp: parse_const_def split: if_splits)

lemma parse_raises:
  "(\<forall>s e. parse_value n s = Inl e \<longrightarrow> e = ValueError \<or> e = NonFinite) \<and>
   (\<forall>s e. parse_elems n s = Inl e \<longrightarrow> e = ValueError \<or> e = NonFinite) \<and>
   (\<forall>s e. parse_members n s = Inl e \<longrightarrow> e = ValueError \<or> e = NonFinite)"
proof (induction n)
  case (Suc n)
  then have ih: "parse_value n s = Inl e \<Longrightarrow> e = ValueError \<or> e = NonFinite"
    "parse_elems n s = Inl e \<Longrightarrow> e = ValueError \<or> e = NonFinite"
    "parse_members n s = Inl e \<Longrightarrow> e = ValueError \<or> e = NonFinite" for s e
    by blast+
  have "parse_value (Suc n) s = Inl e \<Longrightarrow> e = ValueError \<or> e = NonFinite" for s e
    using ih scan_number_raises
    by (auto simp: res_bind_def simp del: parse_elems.simps parse_members.simps dest: scan_string_raises parse_const_raises
        split: list.splits if_splits sum.splits prod.splits)
  moreover have "parse_elems (Suc n) s = Inl e \<Longrightarrow> e = ValueError \<or> e = NonFinite" for s e
    using ih by (auto simp: res_bind_def split: list.splits if_splits sum.splits prod.splits)
  moreover have "parse_members (Suc n) s = Inl e \<Longrightarrow> e = ValueError \<or> e = NonFinite" for s e
    using ih by (auto simp: res_bind_def dest: scan_string_raises split: list.splits if_splits sum.splits prod.splits)
  ultimately show ?case by blast
qed simp

lemma json_loads_raises: "json_loads s = Inl e \<Longrightarrow> e = ValueError \<or> e = NonFinite"
  using parse_raises [of "2 * length s + 2"]
  by (auto simp: json_loads_def res_bind_def split: sum.splits prod.splits if_splits)


end
