(* ===== verification/UiProtocol.thy ===== *)
theory UiProtocol
  imports UiOrders
begin

text \<open>
  The messages of \<open>ui/main.py\<close> to browsers as JSON values, and the types \<open>docs/UI.md\<close> gives them.
  The theorem says that whatever the network and the browsers do, only such messages are sent.
\<close>

section \<open>Messages as JSON\<close>

definition level_json :: "rat \<times> int \<Rightarrow> json" where
  "level_json l = JArr [JFloat (fst l), JInt (snd l)]"

definition book_view_json :: "book_view \<Rightarrow> json" where
  "book_view_json b =
     JObj [(''bids'', JArr (map level_json (bv_bids b))), (''asks'', JArr (map level_json (bv_asks b)))]"

definition order_json :: "order_view \<Rightarrow> json" where
  "order_json o1 =
     JObj [(''eid'', JStr (v_eid o1)), (''symbol'', JStr (v_symbol o1)), (''side'', JInt (int (v_side o1))),
           (''price'', JFloat (v_price o1)), (''qty'', JInt (v_qty o1))]"

definition trade_json :: "trade_pt \<Rightarrow> json" where
  "trade_json p = JObj [(''time'', JFloat (t_time p)), (''value'', JFloat (t_value p))]"

text \<open>
  The dictionary displays of the code; a report is \<open>{"type": "exec", **msg}\<close>. Its list of
  snapshot entries is left out here: a report has none (\<open>exec_ok\<close> below).
\<close>

fun ws_json :: "ws_msg \<Rightarrow> json" where
  "ws_json (WsSymbols syms) = JObj [(''type'', JStr ''symbols''), (''symbols'', JArr (map JStr syms))]"
| "ws_json (WsMd seq evt side symbol price qty eid) =
     JObj [(''type'', JStr ''md''), (''seq'', JInt (int seq)), (''evt'', JInt (int evt)), (''side'', JInt (int side)),
           (''symbol'', JStr symbol), (''price'', JFloat price), (''qty'', JInt qty), (''eid'', JStr eid)]"
| "ws_json (WsExec msg) =
     JObj (fold (\<lambda>(k, v). AList.update k (JStr v)) (fm_fields msg) [(''type'', JStr ''exec'')])"
| "ws_json (WsSnapshot syms book ords hist) =
     JObj [(''type'', JStr ''snapshot''), (''symbols'', JArr (map JStr syms)),
           (''book'', JObj (map (\<lambda>(sym, b). (sym, book_view_json b)) book)),
           (''orders'', JArr (map order_json ords)),
           (''trade_history'', JObj (map (\<lambda>(sym, ps). (sym, JArr (map trade_json ps))) hist))]"

definition ws_msg_text :: "ws_msg \<Rightarrow> string" where
  "ws_msg_text m = json_dumps (ws_json m)"

section \<open>Types of JSON values\<close>

datatype jtype =
    TStr
  | TInt
  | TFloat
  | TLit string
  | TList jtype
  | TUpTo nat jtype
  | TPair jtype jtype
  | TDict jtype
  | TRecord "(string \<times> jtype) list"

function has_type :: "jtype \<Rightarrow> json \<Rightarrow> bool" where
  "has_type TStr v = (case v of JStr _ \<Rightarrow> True | _ \<Rightarrow> False)"
| "has_type TInt v = (case v of JInt _ \<Rightarrow> True | _ \<Rightarrow> False)"
| "has_type TFloat v = (case v of JFloat _ \<Rightarrow> True | _ \<Rightarrow> False)"
| "has_type (TLit s) v = (v = JStr s)"
| "has_type (TList t) v = (case v of JArr vs \<Rightarrow> list_all (has_type t) vs | _ \<Rightarrow> False)"
| "has_type (TUpTo n t) v = (case v of JArr vs \<Rightarrow> length vs \<le> n \<and> list_all (has_type t) vs | _ \<Rightarrow> False)"
| "has_type (TPair s t) v = (case v of JArr [a, b] \<Rightarrow> has_type s a \<and> has_type t b | _ \<Rightarrow> False)"
| "has_type (TDict t) v = (case v of JObj kvs \<Rightarrow> list_all (\<lambda>kv. has_type t (snd kv)) kvs | _ \<Rightarrow> False)"
| "has_type (TRecord fs) v =
     (case v of
        JObj kvs \<Rightarrow> map fst kvs = map fst fs \<and>
          list_all (\<lambda>(f, kv). has_type (snd f) (snd kv)) (zip fs kvs)
      | _ \<Rightarrow> False)"
  by pat_completeness auto
termination
proof (relation "measure (\<lambda>(t, v). size t)", goal_cases)
  case (7 fs v kvs p f kv)
  then have "f \<in> set fs" by (metis set_zip_leftD)
  then have "size (snd f) \<le> size_list (size_prod (\<lambda>x. 0) size) fs"
    by (rule size_list_estimation') (cases f, simp)
  then show ?case by simp
qed auto

text \<open>The protocol: the type of a message by the value of its \<open>"type"\<close>.\<close>

definition levels_type :: jtype where
  "levels_type = TUpTo 10 (TPair TFloat TInt)"

definition protocol :: "(string \<times> jtype) list" where
  "protocol =
     [(''symbols'', TRecord [(''type'', TLit ''symbols''), (''symbols'', TList TStr)]),
      (''md'', TRecord [(''type'', TLit ''md''), (''seq'', TInt), (''evt'', TInt), (''side'', TInt), (''symbol'', TStr),
                        (''price'', TFloat), (''qty'', TInt), (''eid'', TStr)]),
      (''exec'', TDict TStr),
      (''snapshot'', TRecord [(''type'', TLit ''snapshot''), (''symbols'', TList TStr),
                        (''book'', TDict (TRecord [(''bids'', levels_type), (''asks'', levels_type)])),
                        (''orders'', TList (TRecord [(''eid'', TStr), (''symbol'', TStr), (''side'', TInt),
                                                    (''price'', TFloat), (''qty'', TInt)])),
                        (''trade_history'', TDict (TList (TRecord [(''time'', TFloat), (''value'', TFloat)])))])]"

definition conforms :: "json \<Rightarrow> bool" where
  "conforms v \<longleftrightarrow>
     (case v of
        JObj kvs \<Rightarrow>
          (case map_of kvs ''type'' of
             Some (JStr ty) \<Rightarrow> (case map_of protocol ty of Some t \<Rightarrow> has_type t v | None \<Rightarrow> False)
           | _ \<Rightarrow> False)
      | _ \<Rightarrow> False)"

section \<open>Only such messages are sent\<close>

definition exec_ok :: "fix_msg \<Rightarrow> bool" where
  "exec_ok msg \<longleftrightarrow> msg_tag msg ''35'' = Some ''8'' \<and> fm_entries msg = None"

fun msg_ok :: "ws_msg \<Rightarrow> bool" where
  "msg_ok (WsExec msg) = exec_ok msg"
| "msg_ok (WsSnapshot syms book ords hist) =
     list_all (\<lambda>kv. length (bv_bids (snd kv)) \<le> 10 \<and> length (bv_asks (snd kv)) \<le> 10) book"
| "msg_ok _ = True"

definition msgs_ok :: "ui_state \<Rightarrow> bool" where
  "msgs_ok st \<longleftrightarrow>
     list_all (\<lambda>x. msg_ok (snd x)) (ws_sent st) \<and> list_all (\<lambda>x. msg_ok (snd x)) (ws_tasks st) \<and>
     list_all exec_ok (exec_log st)"

lemma exec_fields:
  "fold (\<lambda>(k, v). AList.update k (JStr v)) fs d = fold (\<lambda>(k, v). AList.update k v) (map (\<lambda>(k, v). (k, JStr v)) fs) d"
  by (induction fs arbitrary: d) auto

lemma exec_strings:
  "list_all (\<lambda>kv. has_type TStr (snd kv)) d \<Longrightarrow>
   list_all (\<lambda>kv. has_type TStr (snd kv)) (fold (\<lambda>(k, v). AList.update k (JStr v)) fs d)"
proof (induction fs arbitrary: d)
  case (Cons f fs)
  have "list_all (\<lambda>kv. has_type TStr (snd kv)) (AList.update k (JStr v) d)" for k v
    using Cons.prems set_update_subset [of k "JStr v" d] by (fastforce simp: list_all_iff)
  then show ?case using Cons.IH by (simp add: case_prod_beta)
qed simp

lemma list_all_zip_same [simp]: "list_all (\<lambda>(f, kv). P f kv) (zip [] ys)"
  by simp

lemma msg_ok_conforms:
  assumes "msg_ok m" "\<And>x. m = WsExec x \<Longrightarrow> msg_tag x ''type'' = None"
  shows "conforms (ws_json m)"
proof (cases m)
  case (WsExec x)
  let ?d = "fold (\<lambda>(k, v). AList.update k (JStr v)) (fm_fields x) [(''type'', JStr ''exec'')]"
  have "map_of (rev (map (\<lambda>(k, v). (k, JStr v)) (fm_fields x))) ''type'' = None"
    using assms(2) [OF WsExec] by (force simp: map_of_eq_None_iff)
  then have "map_of ?d ''type'' = Some (JStr ''exec'')"
    by (simp add: exec_fields map_of_fold_update map_add_def)
  then show ?thesis using WsExec exec_strings [of "[(''type'', JStr ''exec'')]" "fm_fields x"]
    by (simp add: conforms_def protocol_def)
next
  case (WsSnapshot syms book ords hist)
  then show ?thesis using assms(1)
    by (auto simp: conforms_def protocol_def levels_type_def book_view_json_def level_json_def order_json_def trade_json_def
        list_all_iff)
qed (simp_all add: conforms_def protocol_def list_all_iff)

lemma msgs_ok_same:
  "msgs_ok st \<Longrightarrow> ws_sent st' = ws_sent st \<Longrightarrow> ws_tasks st' = ws_tasks st \<Longrightarrow> exec_log st' = exec_log st \<Longrightarrow> msgs_ok st'"
  by (simp add: msgs_ok_def)

lemma msgs_ok_broadcast: "msgs_ok st \<Longrightarrow> msg_ok m \<Longrightarrow> msgs_ok (broadcast m st)"
  by (auto simp: msgs_ok_def broadcast_def list_all_iff)

lemma msgs_ok_deliver: "msgs_ok st \<Longrightarrow> msg_ok m \<Longrightarrow> msgs_ok (deliver ws m st)"
  by (simp add: msgs_ok_def deliver_def)

lemma msg_ok_snapshot: "msg_ok (snapshot_msg st)"
  by (simp add: snapshot_msg_def book_snapshot_def best_bids_def best_asks_def list_all_iff case_prod_beta)

lemma msgs_ok_replay: "msgs_ok st \<Longrightarrow> msgs_ok (ws_replay ws k st)"
proof -
  assume ok: "msgs_ok st"
  have phase: "msgs_ok (u\<lparr>ws_phases := p\<rparr>) = msgs_ok u" for u p by (simp add: msgs_ok_def)
  have "k < length (exec_log st) \<Longrightarrow> exec_ok (exec_log st ! k)" using ok by (simp add: msgs_ok_def list_all_length)
  then show ?thesis using ok by (auto simp: ws_replay_def phase msgs_ok_deliver msg_ok_snapshot)
qed

lemma msgs_ok_task: "msgs_ok st \<Longrightarrow> (ws, m) \<in> set (ws_tasks st) \<Longrightarrow> msgs_ok (safe_send ok ws m st)"
  by (auto simp: msgs_ok_def safe_send_def deliver_def discard_client_def Let_def list_all_iff dest: in_set_remove1 notin_set_remove1)

lemma received_exec_ok:
  "ui_recv timed st = (Inr msg, st') \<Longrightarrow> msg_tag msg ''35'' = Some ''8'' \<Longrightarrow> exec_ok msg"
  by (auto simp: ui_recv_def exec_ok_def parse_fields_def Let_def res_bind_Inr split: prod.splits if_splits
      elim!: AsyncFixSession_recv_Inr)

lemma msgs_ok_send: "msgs_ok st \<Longrightarrow> msgs_ok (snd (ui_send clock mt body st))"
  using ui_send_frame [of clock mt body st] by (auto simp: msgs_ok_def)

lemma msgs_ok_reader:
  assumes "msgs_ok st" "fix_reader clock ts_of (with_input evs st) = (r, st')"
  shows "msgs_ok st'"
proof -
  obtain q st1 where recv: "ui_recv False (with_input evs st) = (q, st1)" by (cases "ui_recv False (with_input evs st)")
  have st1: "msgs_ok st1" using ui_recv_frame [OF recv] assms(1) by (auto simp: with_input_def msgs_ok_def)
  show ?thesis
  proof (cases q)
    case (Inr msg)
    have exec: "exec_ok msg" if "msg_tag msg ''35'' = Some ''8''" using received_exec_ok recv Inr that by simp
    have logged: "msgs_ok (broadcast (WsExec msg) (st1\<lparr>exec_log := exec_log st1 @ [msg]\<rparr>))" if "exec_ok msg"
      using that st1 by (intro msgs_ok_broadcast) (simp_all add: msgs_ok_def)
    have snap: "msgs_ok (process_md_snapshot ts_of msg st1)"
      by (rule msgs_ok_same [OF st1]) (simp_all add: md_frames)
    have "msgs_ok (snd (fix_reader_msg clock ts_of msg st1))"
      using exec logged snap msgs_ok_send [OF st1] st1 by (auto simp: fix_reader_msg_def)
    then show ?thesis using assms(2) recv Inr by (auto simp: fix_reader_def)
  next
    case (Inl e)
    then show ?thesis using assms(2) recv st1 by (auto simp: fix_reader_def)
  qed
qed

lemma msgs_ok_datagram:
  assumes "msgs_ok st"
  shows "msgs_ok (snd (md_datagram now data st))"
proof -
  obtain r st1 where d: "datagram_received now data st = (r, st1)" by (cases "datagram_received now data st")
  have same: "msgs_ok (apply_md evt side symbol price qty eid st)" for evt side symbol price qty eid
  proof -
    let ?st' = "apply_md evt side symbol price qty eid st"
    have "exec_log ?st' = exec_log st \<and> ws_sent ?st' = ws_sent st \<and> ws_tasks ?st' = ws_tasks st"
      unfolding apply_md_def by (auto simp: case_prod_beta Let_def levels_frames bump_level_frames split: option.split)
    then show ?thesis by (intro msgs_ok_same [OF assms]) simp_all
  qed
  have trade: "msgs_ok (record_trade now symbol price u) = msgs_ok u" for symbol price u
    by (simp add: record_trade_def msgs_ok_def)
  have st1: "msgs_ok st1"
    using arg_cong [OF d, of snd] assms same trade
    by (auto simp: datagram_received_def Let_def split: sum.splits if_splits)
  have msgs: "list_all msg_ok msgs" if "r = Inr msgs" for msgs
    using d that by (auto simp: datagram_received_def Let_def split: sum.splits if_splits)
  have "msgs_ok (fold broadcast msgs u)" if "msgs_ok u" "list_all msg_ok msgs" for msgs u
    using that by (induction msgs arbitrary: u) (simp_all add: msgs_ok_broadcast)
  then show ?thesis using d st1 msgs by (auto simp: md_datagram_def split: sum.split)
qed

lemma msgs_ok_close: "msgs_ok (ws_close ws st) = msgs_ok st"
  by (simp add: ws_close_def discard_client_def msgs_ok_def)

lemma msgs_ok_input: "msgs_ok st \<Longrightarrow> msgs_ok (ws_input clock ws ts raw st)"
proof -
  assume ok: "msgs_ok st"
  have "msgs_ok (snd (ws_receive clock ts data st))" for data
  proof -
    obtain q st1 where q: "ws_request ts data st = (q, st1)" by (cases "ws_request ts data st")
    then have "st1 \<in> {st, st\<lparr>seq_counter := seq_counter st + 1\<rparr>}"
      by (auto simp: ws_request_def Let_def split: sum.splits if_splits)
    then have "msgs_ok st1" using ok by (auto simp: msgs_ok_def)
    then show ?thesis using q msgs_ok_send by (auto simp: ws_receive_def split: sum.split option.split)
  qed
  then have "msgs_ok (snd (ws_text clock ts raw st))" using ok by (auto simp: ws_text_def split: sum.split json.split)
  then show ?thesis by (auto simp: ws_input_def msgs_ok_close split: prod.split sum.split)
qed

lemma msgs_ok_step: "ui_step clock ts_of st st' \<Longrightarrow> msgs_ok st \<Longrightarrow> msgs_ok st'"
proof (erule ui_stepE)
  fix ws assume "st' = ws_replay ws 0 (ws_connect ws st)" "msgs_ok st"
  then show ?thesis using msgs_ok_replay [of "ws_connect ws st"] by (simp add: ws_connect_def msgs_ok_def)
qed (simp_all add: msgs_ok_replay msgs_ok_input msgs_ok_close msgs_ok_datagram msgs_ok_task msgs_ok_reader)

lemma msgs_ok_run: "ui_run clock ts_of st0 st \<Longrightarrow> msgs_ok st0 \<Longrightarrow> msgs_ok st"
  by (induction rule: ui_run.induct) (auto intro: msgs_ok_step)



end
