(* ===== verification/PyState.thy ===== *)
theory PyState
  imports PyFloat
begin

text \<open>
  Straight-line Python with side effects: a program takes the state and returns a value or the
  exception that ended it, with the state at that point. A \<open>for\<close> loop over a known sequence is
  \<open>for_each\<close>, which collects what its body returns. The format specifications that pad text
  (\<open>:<n\<close>, \<open>:>n\<close>) and group digits (\<open>:,.0f\<close>) are here as well.
\<close>

section \<open>Programs\<close>

type_synonym ('s, 'a) prog = "'s \<Rightarrow> 'a res \<times> 's"

definition ret :: "'a \<Rightarrow> ('s, 'a) prog" where
  "ret x s = (Inr x, s)"

definition fail :: "py_exc \<Rightarrow> ('s, 'a) prog" where
  "fail e s = (Inl e, s)"

definition lift_res :: "'a res \<Rightarrow> ('s, 'a) prog" where
  "lift_res r s = (r, s)"

definition seq_bind :: "('s, 'a) prog \<Rightarrow> ('a \<Rightarrow> ('s, 'b) prog) \<Rightarrow> ('s, 'b) prog" where
  "seq_bind p f s = (case p s of (Inl e, s') \<Rightarrow> (Inl e, s') | (Inr x, s') \<Rightarrow> f x s')"

named_theorems prog_simps

lemma prog_basic [simp, prog_simps]:
  "ret x s = (Inr x, s)" "fail e s = (Inl e, s)" "lift_res r s = (r, s)"
  by (simp_all add: ret_def fail_def lift_res_def)

lemma seq_bind_simps [prog_simps]:
  "p s = (Inr x, s') \<Longrightarrow> seq_bind p f s = f x s'"
  "p s = (Inl e, s') \<Longrightarrow> seq_bind p f s = (Inl e, s')"
  by (simp_all add: seq_bind_def)

lemma seq_bind_Inr:
  "seq_bind p f s = (Inr y, s'') \<longleftrightarrow> (\<exists>x s'. p s = (Inr x, s') \<and> f x s' = (Inr y, s''))"
  by (auto simp: seq_bind_def split: prod.splits sum.splits)

text \<open>\<open>for x in xs: body(x)\<close>, with the list of what the bodies return.\<close>

fun for_each :: "('a \<Rightarrow> ('s, 'b) prog) \<Rightarrow> 'a list \<Rightarrow> ('s, 'b list) prog" where
  "for_each body [] = ret []"
| "for_each body (x # xs) = seq_bind (body x) (\<lambda>y. seq_bind (for_each body xs) (\<lambda>ys. ret (y # ys)))"

text \<open>
  A loop whose bodies all return goes through the states they go through and returns what they
  return: what a client proves of one round holds of the whole loop.
\<close>

lemma for_each_length: "for_each body xs s = (Inr ys, s') \<Longrightarrow> length ys = length xs"
  by (induction xs arbitrary: s ys) (auto simp: seq_bind_Inr)

lemma for_each_map: "for_each body (map f xs) = for_each (\<lambda>x. body (f x)) xs"
  by (induction xs) simp_all

lemma for_each_invariant:
  assumes "for_each body xs s = (r, s')" "P s"
    and "\<And>x u v q. P u \<Longrightarrow> body x u = (q, v) \<Longrightarrow> P v"
  shows "P s'"
  using assms(1,2)
proof (induction xs arbitrary: s r)
  case (Cons x xs)
  obtain q u where q: "body x s = (q, u)" by (cases "body x s")
  then have "P u" using assms(3) Cons.prems(2) by blast
  then show ?case using Cons q
    by (cases q) (auto simp: seq_bind_def split: prod.splits sum.splits)
qed simp

lemma for_each_kept:
  assumes "for_each body xs s = (Inr ys, s')" "P s"
    and "\<And>x u y v. P u \<Longrightarrow> body x u = (Inr y, v) \<Longrightarrow> P v"
  shows "P s'"
  using assms(1,2)
proof (induction xs arbitrary: s ys)
  case (Cons x xs)
  then show ?case using assms(3) by (auto simp: seq_bind_Inr)
qed simp

lemma for_each_results:
  assumes "for_each body xs s = (Inr ys, s')" "\<And>x u y v. body x u = (Inr y, v) \<Longrightarrow> Q x y"
  shows "list_all2 Q xs ys"
  using assms(1)
proof (induction xs arbitrary: s ys)
  case (Cons x xs)
  then show ?case using assms(2) by (auto simp: seq_bind_Inr)
qed simp

text \<open>What each round appends to an output, the whole loop appends in order.\<close>

lemma for_each_appends:
  assumes "for_each body xs s = (Inr ys, s')"
    and "\<And>x u y v. x \<in> set xs \<Longrightarrow> body x u = (Inr y, v) \<Longrightarrow> out v = out u @ f x"
  shows "out s' = out s @ concat (map f xs)"
  using assms
proof (induction xs arbitrary: s ys)
  case (Cons x xs)
  then obtain y u zs where "body x s = (Inr y, u)" "for_each body xs u = (Inr zs, s')"
    by (auto simp: seq_bind_Inr)
  then show ?case using Cons by simp
qed simp

text \<open>A list comprehension whose element expression may raise.\<close>

fun res_map :: "('a \<Rightarrow> 'b res) \<Rightarrow> 'a list \<Rightarrow> 'b list res" where
  "res_map f [] = Inr []"
| "res_map f (x # xs) = res_bind (f x) (\<lambda>y. res_bind (res_map f xs) (\<lambda>ys. Inr (y # ys)))"

lemma res_map_ok: "(\<And>x. x \<in> set xs \<Longrightarrow> f x = Inr (g x)) \<Longrightarrow> res_map f xs = Inr (map g xs)"
  by (induction xs) auto

section \<open>Format specifications\<close>

definition ljust :: "nat \<Rightarrow> string \<Rightarrow> string" where
  "ljust n s = s @ replicate (n - length s) CHR '' ''"

definition rjust :: "nat \<Rightarrow> string \<Rightarrow> string" where
  "rjust n s = replicate (n - length s) CHR '' '' @ s"

lemma length_just [simp]: "length (ljust n s) = max n (length s)" "length (rjust n s) = max n (length s)"
  by (simp_all add: ljust_def rjust_def max_def)

fun group_digits :: "nat \<Rightarrow> string \<Rightarrow> string" where
  "group_digits k [] = []"
| "group_digits k (c # cs) = c # (if k mod 3 = 1 \<and> cs \<noteq> [] then CHR '','' # group_digits (k - 1) cs
                                 else group_digits (k - 1) cs)"

text \<open>\<open>{x:,.0f}\<close> for a non-negative number.\<close>

definition fmt_commas :: "rat \<Rightarrow> string" where
  "fmt_commas x = (let s = fmt_fixed 0 x in group_digits (length s) s)"

section \<open>Lines\<close>

text \<open>\<open>s.splitlines()\<close> on ASCII text.\<close>

definition is_line_end :: "char \<Rightarrow> bool" where
  "is_line_end c \<longleftrightarrow> c \<in> set [CHR 0x0A, CHR 0x0B, CHR 0x0C, CHR 0x0D, CHR 0x1C, CHR 0x1D, CHR 0x1E]"

fun splitlines_acc :: "string \<Rightarrow> string \<Rightarrow> string list" where
  "splitlines_acc w [] = (if w = [] then [] else [w])"
| "splitlines_acc w (c # cs) =
     (if is_line_end c
      then w # splitlines_acc [] (if c = CHR 0x0D \<and> cs \<noteq> [] \<and> hd cs = CHR 0x0A then tl cs else cs)
      else splitlines_acc (w @ [c]) cs)"

definition splitlines :: "string \<Rightarrow> string list" where
  "splitlines s = splitlines_acc [] s"

lemma splitlines_acc_word:
  "list_all (\<lambda>c. \<not> is_line_end c) w \<Longrightarrow> splitlines_acc a (w @ rest) = splitlines_acc (a @ w) rest"
  by (induction w arbitrary: a) auto

lemma splitlines_line:
  "list_all (\<lambda>c. \<not> is_line_end c) w \<Longrightarrow> splitlines (w @ [CHR 0x0A] @ rest) = w # splitlines rest"
  using splitlines_acc_word [of w "[]" "[CHR 0x0A] @ rest"]
  by (simp add: splitlines_def is_line_end_def)

end
