(* ===== verification/BenchSession.thy ===== *)
theory BenchSession
  imports FixClient PyState
begin

text \<open>
  The transport half of \<open>bench/bench.py\<close>: its FIX framing (\<open>_checksum\<close>, \<open>_build\<close>, \<open>_parse\<close>),
  the blocking \<open>FixSession\<close> with its time stamps, the admin client (\<open>_admin_cmd\<close>,
  \<open>claim_session\<close>, \<open>release_session\<close>, \<open>reset_stats\<close>, \<open>fetch_stats\<close>) and the bootstrap of the
  exchange. A socket delivers \<open>Chunk\<close>s; \<open>Expire\<close> is its timeout, which raises
  \<open>socket.timeout\<close> (\<open>TimeoutError\<close>). The readings of \<open>perf_counter_ns\<close> are the values of a
  function at 0, 1, 2, ...; \<open>bs_ticks\<close> counts how many were taken.
\<close>

section \<open>Framing\<close>

definition bench_checksum :: "string \<Rightarrow> string res" where
  "bench_checksum data =
     res_bind (encode_ascii data) (\<lambda>b. Inr (fmt_03d (sum_list (map of_char b) mod 256)))"

definition bench_build ::
  "string \<Rightarrow> string \<Rightarrow> nat \<Rightarrow> string \<Rightarrow> (string \<times> string) list \<Rightarrow> bytes res" where
  "bench_build now_fix msg_type seq sender flds =
     (let header = ''35='' @ msg_type @ [SEP] @ ''49='' @ sender @ [SEP] @ ''56='' @ TARGET @ [SEP] @
                   ''34='' @ str_nat seq @ [SEP] @ ''52='' @ now_fix @ [SEP];
          body = header @ concat (map (\<lambda>(k, v). k @ ''='' @ v @ [SEP]) flds)
      in res_bind (encode_ascii body) (\<lambda>b.
           let raw = (''8=FIX.4.2'' @ [SEP] @ ''9='' @ str_nat (length b) @ [SEP]) @ body
           in res_bind (bench_checksum raw) (\<lambda>ck. encode_ascii (raw @ ''10='' @ ck @ [SEP]))))"

definition bench_parse :: "bytes \<Rightarrow> (string, string) dict" where
  "bench_parse raw =
     fold (\<lambda>pair out.
             if CHR ''='' \<in> set pair
             then (case partition_on CHR ''='' pair of (tag, _, val) \<Rightarrow> AList.update tag val out)
             else out)
       (split_on SEP (decode_ascii_replace raw)) []"

lemma bench_build_eq:
  "bench_build ts msg_type seq sender body = build_message ts msg_type seq body sender"
proof -
  have "bench_checksum = checksum"
    by (simp add: fun_eq_iff bench_checksum_def checksum_def)
  then show ?thesis by (simp add: bench_build_def build_message_def Let_def)
qed

lemma bench_parse_eq: "bench_parse = parse_dict"
  by (simp add: fun_eq_iff bench_parse_def parse_dict_def)

interpretation bench: fix_codec "\<lambda>ts mt seq body sender. bench_build ts mt seq sender body" bench_parse
  unfolding bench_build_eq bench_parse_eq by (rule ui.fix_codec_axioms)

section \<open>The session\<close>

record bench_session =
  bs_sender :: string
  bs_seq :: nat
  bs_buf :: bytes
  bs_net :: "net_event list"
  bs_out :: "bytes list"
  bs_ticks :: nat

type_synonym 'a bench_prog = "(bench_session, 'a) prog"

definition FixSession_init :: "string \<Rightarrow> net_event list \<Rightarrow> bench_session" where
  "FixSession_init sender net =
     \<lparr>bs_sender = sender, bs_seq = 1, bs_buf = [], bs_net = net, bs_out = [], bs_ticks = 0\<rparr>"

definition bench_send :: "string \<Rightarrow> string \<Rightarrow> (string \<times> string) list \<Rightarrow> unit bench_prog" where
  "bench_send ts msg_type flds s =
     (case bench_build ts msg_type (bs_seq s) (bs_sender s) flds of
        Inl e \<Rightarrow> (Inl e, s)
      | Inr msg \<Rightarrow> (Inr (), s\<lparr>bs_out := bs_out s @ [msg], bs_seq := bs_seq s + 1\<rparr>))"

definition perf_counter_ns :: "(nat \<Rightarrow> int) \<Rightarrow> int bench_prog" where
  "perf_counter_ns clock s = (Inr (clock (bs_ticks s)), s\<lparr>bs_ticks := bs_ticks s + 1\<rparr>)"

definition bench_send_timed ::
  "(nat \<Rightarrow> int) \<Rightarrow> string \<Rightarrow> string \<Rightarrow> (string \<times> string) list \<Rightarrow> int bench_prog" where
  "bench_send_timed clock ts msg_type flds =
     seq_bind (bench_send ts msg_type flds) (\<lambda>_. perf_counter_ns clock)"

text \<open>
  The loop of \<open>_recv_raw\<close>: \<open>raw_cut\<close> is the end of the first complete message in the buffer,
  without one it reads on.
\<close>

definition raw_cut :: "bytes \<Rightarrow> nat option" where
  "raw_cut buf = (case find_sub ''10='' buf of None \<Rightarrow> None | Some end \<Rightarrow> index_from SEP buf end)"

fun recv_raw_loop :: "bytes \<Rightarrow> net_event list \<Rightarrow> bytes res \<times> bytes \<times> net_event list" where
  "recv_raw_loop buf net =
     (case raw_cut buf of
        Some soh \<Rightarrow> (Inr (take (soh + 1) buf), drop (soh + 1) buf, net)
      | None \<Rightarrow>
          (case net of
             [] \<Rightarrow> (Inl ConnectionError, buf, [])
           | Chunk c # rest \<Rightarrow>
               if c = [] then (Inl ConnectionError, buf, rest) else recv_raw_loop (buf @ c) rest
           | Expire # rest \<Rightarrow> (Inl TimeoutError, buf, rest)))"

declare recv_raw_loop.simps [simp del]

lemma recv_raw_hit:
  "raw_cut buf = Some soh \<Longrightarrow> recv_raw_loop buf net = (Inr (take (soh + 1) buf), drop (soh + 1) buf, net)"
  by (simp add: recv_raw_loop.simps)

lemma recv_raw_wait:
  assumes "raw_cut buf = None"
  shows "recv_raw_loop buf [] = (Inl ConnectionError, buf, [])"
    and "recv_raw_loop buf (Chunk c # rest) =
           (if c = [] then (Inl ConnectionError, buf, rest) else recv_raw_loop (buf @ c) rest)"
    and "recv_raw_loop buf (Expire # rest) = (Inl TimeoutError, buf, rest)"
  by (subst recv_raw_loop.simps, simp add: assms)+

definition bench_recv_raw :: "(nat \<Rightarrow> int) \<Rightarrow> (bytes \<times> int) bench_prog" where
  "bench_recv_raw clock s =
     (case recv_raw_loop (bs_buf s) (bs_net s) of
        (r, buf, net) \<Rightarrow>
          seq_bind (lift_res r) (\<lambda>msg. seq_bind (perf_counter_ns clock) (\<lambda>ts. ret (msg, ts)))
            (s\<lparr>bs_buf := buf, bs_net := net\<rparr>))"

definition bench_recv_timed :: "(nat \<Rightarrow> int) \<Rightarrow> ((string, string) dict \<times> int) bench_prog" where
  "bench_recv_timed clock = seq_bind (bench_recv_raw clock) (\<lambda>(msg, ts). ret (bench_parse msg, ts))"

definition bench_recv :: "(nat \<Rightarrow> int) \<Rightarrow> (string, string) dict bench_prog" where
  "bench_recv clock = seq_bind (bench_recv_raw clock) (\<lambda>(msg, ts). ret (bench_parse msg))"

abbreviation bs_weight :: "bench_session \<Rightarrow> nat" where
  "bs_weight s \<equiv> net_weight (bs_buf s) (bs_net s)"

lemma raw_cut_less: "raw_cut buf = Some soh \<Longrightarrow> soh < length buf"
  by (auto simp: raw_cut_def split: option.splits dest: index_from_less)

lemma recv_raw_loop_weight:
  "recv_raw_loop buf net = (Inr m, buf', net') \<Longrightarrow> net_weight buf' net' < net_weight buf net"
proof (induction net arbitrary: buf)
  case Nil
  then show ?case
    by (cases "raw_cut buf") (auto simp: recv_raw_hit recv_raw_wait net_weight_def dest: raw_cut_less)
next
  case (Cons ev net)
  show ?case
  proof (cases "raw_cut buf")
    case (Some soh)
    then show ?thesis using Cons.prems raw_cut_less [OF Some] by (auto simp: recv_raw_hit net_weight_def)
  next
    case None
    then obtain c where "ev = Chunk c" "recv_raw_loop (buf @ c) net = (Inr m, buf', net')"
      using Cons.prems by (cases ev) (auto simp: recv_raw_wait split: if_splits)
    then show ?thesis using Cons.IH by (fastforce simp: net_weight_def)
  qed
qed

lemma bench_recv_timed_weight:
  "bench_recv_timed clock s = (Inr x, s') \<Longrightarrow> bs_weight s' < bs_weight s"
  by (auto simp: bench_recv_timed_def bench_recv_raw_def seq_bind_Inr perf_counter_ns_def
      split: prod.splits dest: recv_raw_loop_weight)


section \<open>Waiting for messages\<close>

text \<open>\<open>while True: msg, ts = s.recv_timed(); if <cond>: break\<close>\<close>

function bench_wait ::
  "(nat \<Rightarrow> int) \<Rightarrow> ((string, string) dict \<Rightarrow> bool) \<Rightarrow> ((string, string) dict \<times> int) bench_prog" where
  "bench_wait clock wanted s =
     (case bench_recv_timed clock s of
        (Inl e, s') \<Rightarrow> (Inl e, s')
      | (Inr (msg, ts), s') \<Rightarrow> if wanted msg then (Inr (msg, ts), s') else bench_wait clock wanted s')"
  by pat_completeness auto
termination
  by (relation "measure (\<lambda>(clock, wanted, s). bs_weight s)")
     (auto dest!: sym [THEN bench_recv_timed_weight])

declare bench_wait.simps [simp del]

definition wait_exec :: "(nat \<Rightarrow> int) \<Rightarrow> string option \<Rightarrow> ((string, string) dict \<times> int) bench_prog" where
  "wait_exec clock exec_type =
     bench_wait clock (\<lambda>msg. map_of msg ''35'' = Some ''8'' \<and>
       (exec_type = None \<or> map_of msg ''150'' = exec_type))"

function bench_drain :: "(nat \<Rightarrow> int) \<Rightarrow> unit bench_prog" where
  "bench_drain clock s =
     (case bench_recv_timed clock s of
        (Inr _, s') \<Rightarrow> bench_drain clock s'
      | (Inl e, s') \<Rightarrow> if e = TimeoutError then (Inr (), s') else (Inl e, s'))"
  by pat_completeness auto
termination
  by (relation "measure (\<lambda>(clock, s). bs_weight s)") (auto dest!: sym [THEN bench_recv_timed_weight])

declare bench_drain.simps [simp del]

definition bench_logon :: "(nat \<Rightarrow> int) \<Rightarrow> string \<Rightarrow> unit bench_prog" where
  "bench_logon clock ts =
     seq_bind (bench_send ts ''A'' [(''98'', ''0''), (''108'', ''30'')]) (\<lambda>_.
     seq_bind (bench_recv clock) (\<lambda>resp.
       if map_of resp ''35'' \<noteq> Some ''A'' then fail (RuntimeError ''Logon failed'') else bench_drain clock))"

definition bench_logout :: "(nat \<Rightarrow> int) \<Rightarrow> string \<Rightarrow> unit bench_prog" where
  "bench_logout clock ts =
     seq_bind (bench_send ts ''5'' [(''58'', ''done'')]) (\<lambda>_ s.
       case bench_recv clock s of
         (Inr _, s') \<Rightarrow> (Inr (), s')
       | (Inl e, s') \<Rightarrow> if e \<in> {TimeoutError, ConnectionError} then (Inr (), s') else (Inl e, s'))"

interpretation bench_session: fix_sender "\<lambda>ts mt seq body sender. bench_build ts mt seq sender body"
  bench_parse bench_send bs_sender bs_seq bs_out
  by unfold_locales (auto simp: bench_send_def split: sum.splits)

section \<open>Admin commands\<close>

text \<open>
  The peer answers a request with the chunks it will send, or the connection cannot be opened. The
  answers are ASCII; text outside ASCII is not followed (\<open>UnicodeDecodeError\<close>).
\<close>

type_synonym bench_peer = "bytes \<Rightarrow> net_event list res"

fun admin_read :: "(bytes \<Rightarrow> bool) \<Rightarrow> bytes \<Rightarrow> net_event list \<Rightarrow> bytes res" where
  "admin_read fin data [] = Inr data"
| "admin_read fin data (Expire # net) = Inl TimeoutError"
| "admin_read fin data (Chunk c # net) =
     (if c = [] then Inr data
      else if fin (data @ c) then Inr (data @ c) else admin_read fin (data @ c) net)"

definition admin_finished :: "string \<Rightarrow> bytes \<Rightarrow> bool" where
  "admin_finished cmd data =
     (if cmd = ''STATS'' then find_sub (''END'' @ [CHR 0x0A]) data \<noteq> None else CHR 0x0A \<in> set data)"

definition admin_cmd :: "bench_peer \<Rightarrow> string \<Rightarrow> string res" where
  "admin_cmd peer cmd =
     res_bind (encode_ascii (cmd @ [CHR 0x0A])) (\<lambda>req.
     res_bind (peer req) (\<lambda>net.
     res_bind (admin_read (admin_finished cmd) [] net) decode_ascii))"

definition bench_claim_session :: "bench_peer \<Rightarrow> string res" where
  "bench_claim_session peer =
     res_bind (admin_cmd peer ''CLAIM-SESSION'') (\<lambda>resp.
       if \<not> startswith resp ''OK '' then Inl (RuntimeError ''CLAIM-SESSION failed'')
       else Inr (strip (drop 3 resp)))"

definition bench_release_session :: "bench_peer \<Rightarrow> string \<Rightarrow> unit res" where
  "bench_release_session peer comp_id =
     res_bind (admin_cmd peer (''RELEASE-SESSION '' @ comp_id)) (\<lambda>_. Inr ())"

definition reset_stats :: "bench_peer \<Rightarrow> unit res" where
  "reset_stats peer = res_bind (admin_cmd peer ''RESET-STATS'') (\<lambda>_. Inr ())"

text \<open>\<open>int(v) / 1000.0\<close>\<close>

definition stat_value :: "string \<Rightarrow> rat res" where
  "stat_value v = res_bind (py_int v) (\<lambda>n. res_bind (finite_fl (of_int n)) (\<lambda>x. Inr (fl (x / 1000))))"

definition stats_line :: "string \<Rightarrow> (string, rat list) dict \<Rightarrow> (string, rat list) dict res" where
  "stats_line raw result =
     (let line = strip raw
      in if line = [] \<or> line = ''END'' then Inr result
         else (case partition_on CHR '' '' line of (key, sep, values_str) \<Rightarrow>
           if sep = [] then Inr result
           else (case res_map stat_value (filter (\<lambda>v. v \<noteq> []) (split_on CHR '','' values_str)) of
                   Inr values \<Rightarrow> Inr (AList.update key values result)
                 | Inl e \<Rightarrow> if e = ValueError then Inr result else Inl e)))"

fun stats_lines :: "string list \<Rightarrow> (string, rat list) dict \<Rightarrow> (string, rat list) dict res" where
  "stats_lines [] result = Inr result"
| "stats_lines (l # ls) result = res_bind (stats_line l result) (stats_lines ls)"

definition fetch_stats :: "bench_peer \<Rightarrow> (string, rat list) dict res" where
  "fetch_stats peer = res_bind (admin_cmd peer ''STATS'') (\<lambda>raw. stats_lines (splitlines raw) [])"

section \<open>Starting the exchange\<close>

text \<open>\<open>up k\<close>: the \<open>k\<close>-th attempt to connect succeeds.\<close>

definition start_exchange :: "(nat \<Rightarrow> bool) \<Rightarrow> unit res" where
  "start_exchange up =
     (if find up [0..<20] = None then Inl (RuntimeError ''exchange failed to start within 4 s'') else Inr ())"


section \<open>Reading under any cut of the stream\<close>

lemma raw_cut_framed: "framed m \<Longrightarrow> raw_cut (m @ rest) = Some (length m - 1)"
  using framed_cut [of m rest] by (force simp: raw_cut_def)

lemma raw_cut_partial: "framed m \<Longrightarrow> m = buf @ t \<Longrightarrow> t \<noteq> [] \<Longrightarrow> raw_cut buf = None"
  using framed_incomplete by (auto simp: raw_cut_def split: option.split)

lemma recv_raw_complete: "framed m \<Longrightarrow> recv_raw_loop (m @ rest) net = (Inr m, rest, net)"
  using framed_not_Nil [of m] by (simp add: recv_raw_hit [OF raw_cut_framed])

lemma recv_raw_chunks:
  assumes "framed m" "buf @ concat cs = m @ rest" "[] \<notin> set cs"
  shows "\<exists>buf' cs'. recv_raw_loop buf (map Chunk cs @ net) = (Inr m, buf', map Chunk cs' @ net) \<and>
           buf' @ concat cs' = rest"
  using assms(2,3)
proof (induction cs arbitrary: buf)
  case Nil
  then show ?case
    using recv_raw_complete [OF assms(1)] by (auto intro!: exI [of _ rest] exI [of _ "[]"])
next
  case (Cons c cs)
  show ?case
  proof (cases "length m \<le> length buf")
    case True
    then obtain t where "buf = m @ t" "t @ concat (c # cs) = rest"
      using Cons.prems(1) by (auto simp: append_eq_append_conv2)
    then show ?thesis
      using recv_raw_complete [OF assms(1)] by (auto intro!: exI [of _ t] exI [of _ "c # cs"])
  next
    case False
    then obtain t where t: "m = buf @ t" "t \<noteq> []"
      using Cons.prems(1) by (auto simp: append_eq_append_conv2)
    have "recv_raw_loop buf (map Chunk (c # cs) @ net) = recv_raw_loop (buf @ c) (map Chunk cs @ net)"
      using recv_raw_wait(2) [OF raw_cut_partial [OF assms(1) t]] Cons.prems(2) by auto
    then show ?thesis using Cons.IH [of "buf @ c"] Cons.prems by simp
  qed
qed

text \<open>
  Unlike the UI's session, the benchmark's session reads a framed message correctly however
  the network cuts the stream: \<open>_recv_raw\<close> returns exactly that message with the next reading of
  the clock, keeps exactly the bytes after it, and never raises ValueError.
\<close>

theorem bench_recv_any_chunks:
  assumes "framed m" "bs_buf s @ concat cs = m @ rest" "[] \<notin> set cs" "bs_net s = map Chunk cs @ net"
  shows "\<exists>buf' cs'. bench_recv_raw clock s =
           (Inr (m, clock (bs_ticks s)),
            s\<lparr>bs_buf := buf', bs_net := map Chunk cs' @ net, bs_ticks := bs_ticks s + 1\<rparr>) \<and>
         buf' @ concat cs' = rest"
proof -
  obtain buf' cs' where "recv_raw_loop (bs_buf s) (map Chunk cs @ net) = (Inr m, buf', map Chunk cs' @ net)"
    "buf' @ concat cs' = rest"
    using recv_raw_chunks [OF assms(1-3)] by blast
  then show ?thesis
    using assms(4)
    by (intro exI [of _ buf'] exI [of _ cs']) (simp add: bench_recv_raw_def seq_bind_def perf_counter_ns_def)
qed

theorem bench_recv_any_chunks_witness:
  "\<exists>s'. bench_recv_raw (\<lambda>k. int k) (FixSession_init ''S1'' (map Chunk [take 24 example_frame, drop 24 example_frame]))
     = (Inr (example_frame, 0), s')"
proof -
  let ?cs = "[take 24 example_frame, drop 24 example_frame]"
  have 1: "framed example_frame" by code_simp
  have 2: "bs_buf (FixSession_init ''S1'' (map Chunk ?cs)) @ concat ?cs = example_frame @ []"
    by (simp add: FixSession_init_def)
  have 3: "[] \<notin> set ?cs" by code_simp
  have 4: "bs_net (FixSession_init ''S1'' (map Chunk ?cs)) = map Chunk ?cs @ []" by (simp add: FixSession_init_def)
  show ?thesis using bench_recv_any_chunks [OF 1 2 3 4, of "\<lambda>k. int k"] by (auto simp: FixSession_init_def)
qed

section \<open>Waiting for the wanted message\<close>

lemma bench_recv_timed_framed:
  assumes "framed m" "bs_buf s = []" "bs_net s = Chunk m # net"
  shows "bench_recv_timed clock s =
    (Inr (bench_parse m, clock (bs_ticks s)), s\<lparr>bs_net := net, bs_ticks := bs_ticks s + 1\<rparr>)"
proof -
  have "raw_cut [] = None" by (simp add: raw_cut_def)
  then have "recv_raw_loop [] (Chunk m # net) = (Inr m, [], net)"
    using recv_raw_complete [OF assms(1), of "[]" net] framed_not_Nil [OF assms(1)] by (simp add: recv_raw_wait)
  then show ?thesis
    using assms by (simp add: bench_recv_timed_def bench_recv_raw_def seq_bind_def perf_counter_ns_def)
qed

lemma bench_wait_stream:
  assumes "list_all framed ms" "framed m" "list_all (\<lambda>x. \<not> wanted (bench_parse x)) ms" "wanted (bench_parse m)"
    and "bs_buf s = []" "bs_net s = map Chunk ms @ Chunk m # net"
  shows "bench_wait clock wanted s =
    (Inr (bench_parse m, clock (bs_ticks s + length ms)),
     s\<lparr>bs_net := net, bs_ticks := bs_ticks s + length ms + 1\<rparr>)"
  using assms
proof (induction ms arbitrary: s)
  case Nil
  then show ?case
    using bench_recv_timed_framed [of m s net] by (subst bench_wait.simps) simp
next
  case (Cons x ms)
  let ?s = "s\<lparr>bs_net := map Chunk ms @ Chunk m # net, bs_ticks := bs_ticks s + 1\<rparr>"
  have "bench_wait clock wanted s = bench_wait clock wanted ?s"
    using Cons.prems bench_recv_timed_framed [of x s "map Chunk ms @ Chunk m # net"]
    by (subst bench_wait.simps) simp
  also have "\<dots> = (Inr (bench_parse m, clock (bs_ticks ?s + length ms)),
     ?s\<lparr>bs_net := net, bs_ticks := bs_ticks ?s + length ms + 1\<rparr>)"
    using Cons.prems by (intro Cons.IH) simp_all
  finally show ?case by simp
qed

lemma bench_recv_framed:
  assumes "framed m" "bs_buf s = []" "bs_net s = Chunk m # net"
  shows "bench_recv clock s = (Inr (bench_parse m), s\<lparr>bs_net := net, bs_ticks := bs_ticks s + 1\<rparr>)"
proof -
  have "bench_recv clock s = seq_bind (bench_recv_timed clock) (\<lambda>(msg, ts). ret msg) s"
    by (simp add: bench_recv_def bench_recv_timed_def seq_bind_def split: prod.splits sum.splits)
  then show ?thesis using bench_recv_timed_framed [OF assms] by (simp add: seq_bind_def)
qed

lemma bench_drain_expire:
  assumes "bs_buf s = []" "bs_net s = Expire # net"
  shows "bench_drain clock s = (Inr (), s\<lparr>bs_net := net\<rparr>)"
proof -
  have "raw_cut [] = None" by (simp add: raw_cut_def)
  then have "bench_recv_timed clock s = (Inl TimeoutError, s\<lparr>bs_net := net\<rparr>)"
    using assms by (simp add: bench_recv_timed_def bench_recv_raw_def seq_bind_def recv_raw_wait)
  then show ?thesis by (simp add: bench_drain.simps [of clock s])
qed

section \<open>The statistics report\<close>

text \<open>
  The report of the exchange: one line per track, the key and the nanosecond values separated by
  commas, and a last line \<open>END\<close>.
\<close>

fun join_commas :: "string list \<Rightarrow> string" where
  "join_commas [] = []"
| "join_commas [v] = v"
| "join_commas (v # vs) = v @ CHR '','' # join_commas vs"

definition track_line :: "string \<times> nat list \<Rightarrow> string" where
  "track_line kv = fst kv @ CHR '' '' # join_commas (map str_nat (snd kv))"

definition stats_text :: "(string \<times> nat list) list \<Rightarrow> string" where
  "stats_text kvs = concat (map (\<lambda>kv. track_line kv @ [CHR 0x0A]) kvs) @ ''END'' @ [CHR 0x0A]"

definition track_ok :: "string \<times> nat list \<Rightarrow> bool" where
  "track_ok kv \<longleftrightarrow> is_token (fst kv) \<and> list_all is_ascii (fst kv) \<and> list_all (\<lambda>n. n \<le> 2 ^ 53) (snd kv)"

abbreviation num_or_comma :: "char \<Rightarrow> bool" where
  "num_or_comma c \<equiv> is_digit c \<or> c = CHR '',''"

lemma join_commas_chars: "list_all num_or_comma (join_commas (map str_nat ns))"
proof (induction ns rule: induct_list012)
  case (2 n)
  then show ?case using str_nat_digits [of n] by (auto simp: list_all_iff)
next
  case (3 n m ns)
  then show ?case using str_nat_digits [of n] by (auto simp: list_all_iff)
qed simp

lemma split_join_commas:
  "ns \<noteq> [] \<Longrightarrow> split_on CHR '','' (join_commas (map str_nat ns)) = map str_nat ns"
proof (induction ns rule: induct_list012)
  case (2 n)
  have "CHR '','' \<notin> set (str_nat n)" by (rule notin_str_nat) (simp add: is_digit_def)
  then show ?case by (simp add: split_on_notin)
next
  case (3 n m ns)
  have "CHR '','' \<notin> set (str_nat n)" by (rule notin_str_nat) (simp add: is_digit_def)
  then show ?case using 3 by (simp add: split_on_append_sep split_on_notin)
qed simp


lemma track_line_strip:
  assumes "track_ok (k, ns)"
  shows "strip (track_line (k, ns)) = (if ns = [] then k else track_line (k, ns))"
proof -
  have k: "k \<noteq> []" "list_all (\<lambda>c. \<not> py_isspace c) k" using assms by (simp_all add: track_ok_def is_token_def)
  then have hd: "\<not> py_isspace (hd k)" "\<not> py_isspace (last k)" by (simp_all add: list_all_iff)
  show ?thesis
  proof (cases "ns = []")
    case True
    have "dropWhile py_isspace (rev k) = rev k" using k(1) hd(2) by (simp add: dropWhile_hd hd_rev)
    then show ?thesis
      using True k(1) hd(1) by (simp add: track_line_def strip_def dropWhile_hd py_isspace_def [of "CHR '' ''"])
  next
    case False
    let ?j = "join_commas (map str_nat ns)"
    have "?j \<noteq> []" using False by (induction ns rule: induct_list012) auto
    then have "num_or_comma (last ?j)" using join_commas_chars [of ns] by (simp add: list_all_iff)
    then have "\<not> py_isspace (last ?j)" using digit_not_space by (auto simp: py_isspace_def)
    then show ?thesis
      using False k(1) hd(1) \<open>?j \<noteq> []\<close> by (simp add: track_line_def strip_id)
  qed
qed

lemma stat_value_nat: "n \<le> 2 ^ 53 \<Longrightarrow> stat_value (str_nat n) = Inr (fl (of_nat n / 1000))"
proof -
  assume n: "n \<le> 2 ^ 53"
  then have "(of_nat n :: rat) \<le> of_nat (2 ^ 53)" by (simp only: of_nat_le_iff)
  then have "(of_nat n :: rat) < 2 ^ 1024"
    using power_strict_increasing [of 53 1024 "2 :: rat"] by (simp only: of_nat_power of_nat_numeral) simp
  moreover have "fl (of_nat n) = of_nat n" using is_double_of_nat [OF n] by (rule fl_id)
  ultimately show ?thesis by (simp add: stat_value_def finite_fl_def Let_def)
qed

lemma stats_line_track:
  assumes "track_ok (k, ns)"
  shows "stats_line (track_line (k, ns)) result =
    Inr (if ns = [] then result else AList.update k (map (\<lambda>n. fl (of_nat n / 1000)) ns) result)"
proof -
  have k: "CHR '' '' \<notin> set k" "k \<noteq> []"
    using assms by (auto simp: track_ok_def is_token_def list_all_iff py_isspace_def)
  have "res_map stat_value (map str_nat ns) = Inr (map (\<lambda>n. fl (of_nat n / 1000)) ns)"
  proof -
    have "res_map stat_value (map str_nat xs) = Inr (map (\<lambda>n. fl (of_nat n / 1000)) xs)"
      if "list_all (\<lambda>n. n \<le> 2 ^ 53) xs" for xs
      using that by (induction xs) (simp_all add: stat_value_nat)
    then show ?thesis using assms by (simp add: track_ok_def)
  qed
  moreover have "track_line (k, ns) \<noteq> ''END''" if "ns \<noteq> []"
  proof
    assume "track_line (k, ns) = ''END''"
    then have "CHR '' '' \<in> set ''END''" by (metis in_set_conv_decomp track_line_def)
    then show False by simp
  qed
  ultimately show ?thesis
    using k track_line_strip [OF assms] split_join_commas [of ns]
    by (auto simp: stats_line_def Let_def track_line_def partition_on_def [of _ k])
qed

fun nl_ok :: "char \<Rightarrow> string \<Rightarrow> bool" where
  "nl_ok prev [] = True"
| "nl_ok prev (c # cs) = ((c = CHR 0x0A \<longrightarrow> prev \<noteq> CHR ''D'') \<and> nl_ok c cs)"

lemma nl_ok_no_end: "nl_ok prev s \<Longrightarrow> find_sub (''END'' @ [CHR 0x0A]) s = None"
  by (induction s arbitrary: prev) (auto elim!: prefixE)

lemma nl_ok_append: "nl_ok prev (a @ b) \<longleftrightarrow> nl_ok prev a \<and> nl_ok (if a = [] then prev else last a) b"
  by (induction a arbitrary: prev) auto

lemma nl_ok_plain: "CHR 0x0A \<notin> set s \<Longrightarrow> nl_ok prev s"
  by (induction s arbitrary: prev) auto

lemma track_line_chars:
  assumes "track_ok kv"
  shows "list_all (\<lambda>c. \<not> is_line_end c) (track_line kv)" "list_all is_ascii (track_line kv)"
    "track_line kv \<noteq> []" "last (track_line kv) \<noteq> CHR ''D''"
proof -
  obtain k ns where kv: "kv = (k, ns)" by (cases kv)
  let ?j = "join_commas (map str_nat ns)"
  have tok: "\<forall>c \<in> set k. \<not> py_isspace c" "\<forall>c \<in> set k. is_ascii c"
    using assms by (simp_all add: kv track_ok_def is_token_def list_all_iff)
  have sp: "is_line_end c \<Longrightarrow> py_isspace c" for c by (auto simp: is_line_end_def py_isspace_def)
  have j: "\<forall>c \<in> set ?j. num_or_comma c" using join_commas_chars [of ns] by (simp add: list_all_iff)
  have dig: "num_or_comma c \<Longrightarrow> \<not> is_line_end c \<and> is_ascii c \<and> c \<noteq> CHR ''D''" for c
    by (auto simp: is_line_end_def is_digit_def is_ascii_def)
  have blank: "\<not> is_line_end CHR '' ''" "is_ascii CHR '' ''" by (simp_all add: is_line_end_def is_ascii_def)
  show "list_all (\<lambda>c. \<not> is_line_end c) (track_line kv)"
    unfolding track_line_def kv list_all_iff using tok(1) sp j dig blank(1) by auto
  show "list_all is_ascii (track_line kv)"
    unfolding track_line_def kv list_all_iff using tok(2) j dig blank(2) by auto
  show "track_line kv \<noteq> []" by (simp add: track_line_def)
  show "last (track_line kv) \<noteq> CHR ''D''"
  proof (cases "?j = []")
    case False
    then show ?thesis using j dig [of "last ?j"] by (simp add: track_line_def kv)
  qed (simp add: track_line_def kv)
qed


lemma stats_lines_tracks:
  assumes "list_all track_ok kvs"
  shows "stats_lines (splitlines (stats_text kvs)) result =
    Inr (fold (\<lambda>(k, ns). AList.update k (map (\<lambda>n. fl (of_nat n / 1000)) ns))
           (filter (\<lambda>kv. snd kv \<noteq> []) kvs) result)"
  using assms
proof (induction kvs arbitrary: result)
  case Nil
  have "splitlines (''END'' @ [CHR 0x0A] @ []) = [''END'']"
    by (subst splitlines_line) (simp_all add: is_line_end_def splitlines_def)
  moreover have "strip ''END'' = ''END''" by (rule strip_id) (simp_all add: py_isspace_def)
  ultimately show ?case by (simp add: stats_text_def stats_line_def)
next
  case (Cons kv kvs)
  obtain k ns where kv: "kv = (k, ns)" by (cases kv)
  have "stats_text (kv # kvs) = track_line kv @ [CHR 0x0A] @ stats_text kvs" by (simp add: stats_text_def)
  then have "splitlines (stats_text (kv # kvs)) = track_line kv # splitlines (stats_text kvs)"
    using splitlines_line [OF track_line_chars(1), of kv "stats_text kvs"] Cons.prems by simp
  then show ?case using Cons stats_line_track [of k ns] by (simp add: kv)
qed

lemma stats_text_ok:
  assumes "list_all track_ok kvs"
  shows "list_all is_ascii (stats_text kvs)"
    and "nl_ok prev (concat (map (\<lambda>kv. track_line kv @ [CHR 0x0A]) kvs) @ ''END'')"
proof -
  show "list_all is_ascii (stats_text kvs)"
    using assms track_line_chars(2) by (induction kvs) (simp_all add: stats_text_def is_ascii_def)
  show "nl_ok prev (concat (map (\<lambda>kv. track_line kv @ [CHR 0x0A]) kvs) @ ''END'')"
    using assms
  proof (induction kvs arbitrary: prev)
    case (Cons kv kvs)
    have "CHR 0x0A \<notin> set (track_line kv)"
      using track_line_chars(1) [of kv] Cons.prems by (auto simp: list_all_iff is_line_end_def)
    then show ?case
      using Cons track_line_chars(3,4) [of kv] by (simp add: nl_ok_append nl_ok_plain)
  qed simp
qed

lemma admin_read_chunks:
  assumes "data @ concat cs = u @ [x]" "[] \<notin> set cs" "cs \<noteq> []" "fin (u @ [x])"
    and "\<And>v w. u = v @ w \<Longrightarrow> \<not> fin v"
  shows "admin_read fin data (map Chunk cs @ net) = Inr (u @ [x])"
  using assms(1-3)
proof (induction cs arbitrary: data)
  case (Cons c cs)
  show ?case
  proof (cases "cs = []")
    case True
    then show ?thesis using Cons.prems assms(4) by simp
  next
    case False
    then have "concat cs \<noteq> []" using Cons.prems(2) by (cases cs) auto
    then have u: "u = (data @ c) @ butlast (concat cs)"
      using arg_cong [OF Cons.prems(1), of butlast] Cons.prems(2) by (auto simp: butlast_append)
    then have "\<not> fin (data @ c)" by (rule assms(5))
    then show ?thesis using Cons False by auto
  qed
qed simp

text \<open>
  C16: The statistics of the exchange arrive intact. For every report, whatever its tracks and
  however the network cuts it, \<open>fetch_stats\<close> reads to the end of the report and returns for
  every track with samples exactly those samples, in order, in microseconds.
\<close>

theorem fetch_stats_report:
  assumes "list_all track_ok kvs" "distinct (map fst kvs)"
    and "concat cs = stats_text kvs" "[] \<notin> set cs" "peer (''STATS'' @ [CHR 0x0A]) = Inr (map Chunk cs @ net)"
  shows "fetch_stats peer =
    Inr (map (\<lambda>(k, ns). (k, map (\<lambda>n. fl (of_nat n / 1000)) ns)) (filter (\<lambda>kv. snd kv \<noteq> []) kvs))"
proof -
  let ?u = "concat (map (\<lambda>kv. track_line kv @ [CHR 0x0A]) kvs) @ ''END''"
  let ?f = "\<lambda>kv. (fst kv, map (\<lambda>n. fl (of_nat n / 1000)) (snd kv))"
  let ?kvs = "filter (\<lambda>kv. snd kv \<noteq> []) kvs"
  have whole: "stats_text kvs = ?u @ [CHR 0x0A]" by (simp add: stats_text_def)
  have "admin_finished ''STATS'' (?u @ [CHR 0x0A])"
  proof -
    have "sublist (''END'' @ [CHR 0x0A]) (?u @ [CHR 0x0A])"
      using sublist_appendI [of "''END'' @ [CHR 0x0A]" _ "[]"] by simp
    then show ?thesis by (simp only: admin_finished_def find_sub_None_iff simp_thms if_True)
  qed
  moreover have "\<not> admin_finished ''STATS'' v" if "?u = v @ w" for v w
    using nl_ok_no_end [of "CHR ''x''" v] stats_text_ok(2) [OF assms(1), of "CHR ''x''"] that
    by (simp add: admin_finished_def nl_ok_append)
  moreover have "cs \<noteq> []" using assms(3) whole by auto
  ultimately have "admin_read (admin_finished ''STATS'') [] (map Chunk cs @ net) = Inr (?u @ [CHR 0x0A])"
    using assms(3,4) whole by (intro admin_read_chunks) auto
  then have cmd: "admin_cmd peer ''STATS'' = Inr (stats_text kvs)"
    using assms(5) stats_text_ok(1) [OF assms(1)] whole
    by (simp add: admin_cmd_def encode_ascii_def is_ascii_def decode_ascii_def)
  have "distinct (map fst (map ?f ?kvs))"
    using distinct_map_filter [OF assms(2), of "\<lambda>kv. snd kv \<noteq> []"] by (simp add: comp_def)
  then have "fold (\<lambda>(k, v). AList.update k v) (map ?f ?kvs) [] = map ?f ?kvs"
    by (simp add: fold_update_new_keys)
  then show ?thesis
    using stats_lines_tracks [OF assms(1), of "[]"]
    by (simp add: fetch_stats_def cmd fold_map comp_def case_prod_unfold)
qed

theorem fetch_stats_report_witness:
  "fetch_stats (\<lambda>req. Inr [Chunk (stats_text [(''A'', []), (''B'', [2000, 500])])]) = Inr [(''B'', [fl 2, fl (1 / 2)])]"
proof -
  let ?kvs = "[(''A'', []), (''B'', [2000, 500])] :: (string \<times> nat list) list"
  have 1: "list_all track_ok ?kvs" by (simp add: track_ok_def is_token_def py_isspace_def is_ascii_def)
  have 2: "distinct (map fst ?kvs)" by simp
  have 3: "concat [stats_text ?kvs] = stats_text ?kvs" "[] \<notin> set [stats_text ?kvs]" by (simp_all add: stats_text_def)
  show ?thesis
    using fetch_stats_report [OF 1 2 3, of "\<lambda>req. Inr [Chunk (stats_text ?kvs)]" "[]"] by simp
qed

end
