(* ===== verification/BenchScenarios.thy ===== *)
theory BenchScenarios
  imports BenchSession
begin

text \<open>
  The four scenarios of \<open>bench/bench.py\<close> as programs over a session: the orders they send, what
  they wait for and the latencies they record. \<open>clock\<close> gives the readings of
  \<open>perf_counter_ns\<close>; \<open>now\<close> gives those of \<open>_now_fix\<close>: the message with sequence number \<open>n\<close>
  has reading \<open>2 n\<close> in its transaction time and reading \<open>2 n + 1\<close> in its header. \<open>reset\<close> is
  the outcome of the callback that resets the exchange's statistics.
\<close>

section \<open>Requests\<close>

definition order_fields :: "string \<Rightarrow> string \<Rightarrow> string \<Rightarrow> string \<Rightarrow> string \<Rightarrow> (string \<times> string) list" where
  "order_fields clord symbol side price ts =
     [(''11'', clord), (''21'', ''1''), (''55'', symbol), (''54'', side), (''40'', ''2''), (''44'', price),
      (''38'', ''1''), (''60'', ts)]"

definition cancel_fields :: "string \<Rightarrow> string \<Rightarrow> string \<Rightarrow> (string \<times> string) list" where
  "cancel_fields clord symbol ts =
     [(''41'', clord), (''11'', clord @ ''-CXL''), (''55'', symbol), (''54'', ''1''), (''38'', ''1''), (''60'', ts)]"

definition send_now :: "(nat \<Rightarrow> string) \<Rightarrow> string \<Rightarrow> (string \<Rightarrow> (string \<times> string) list) \<Rightarrow> unit bench_prog" where
  "send_now now msg_type fields_at s =
     bench_send (now (2 * bs_seq s + 1)) msg_type (fields_at (now (2 * bs_seq s))) s"

definition send_now_timed ::
  "(nat \<Rightarrow> int) \<Rightarrow> (nat \<Rightarrow> string) \<Rightarrow> string \<Rightarrow> (string \<Rightarrow> (string \<times> string) list) \<Rightarrow> int bench_prog" where
  "send_now_timed clock now msg_type fields_at s =
     bench_send_timed clock (now (2 * bs_seq s + 1)) msg_type (fields_at (now (2 * bs_seq s))) s"

text \<open>\<open>(t1 - t0) / 1000\<close>\<close>

definition latency :: "int \<Rightarrow> int \<Rightarrow> rat" where
  "latency t0 t1 = fl (of_int (t1 - t0) / 1000)"

definition WARMUP_RATIO :: rat where
  "WARMUP_RATIO = fl (1 / 10)"

definition warmup_count :: "int \<Rightarrow> int" where
  "warmup_count count = max 50 (py_trunc (py_mul (of_int count) WARMUP_RATIO))"

abbreviation py_range :: "int \<Rightarrow> nat list" where
  "py_range n \<equiv> [0..<nat n]"

text \<open>\<open>f"{base + k * 0.01:.2f}"\<close>\<close>

definition price_text :: "int \<Rightarrow> nat \<Rightarrow> string" where
  "price_text base k = fmt_fixed 2 (py_add (of_int base) (py_mul (of_nat k) (fl (1 / 100))))"

definition is_fill_of :: "string \<Rightarrow> (string, string) dict \<Rightarrow> bool" where
  "is_fill_of clord msg \<longleftrightarrow>
     map_of msg ''35'' = Some ''8'' \<and> map_of msg ''150'' \<in> {Some ''1'', Some ''2''} \<and> map_of msg ''11'' = Some clord"

section \<open>Scenarios\<close>

type_synonym scenario = "unit res \<Rightarrow> int \<Rightarrow> string \<Rightarrow> rat list bench_prog"

definition scenario_add :: "(nat \<Rightarrow> int) \<Rightarrow> (nat \<Rightarrow> string) \<Rightarrow> scenario" where
  "scenario_add clock now reset count symbol =
     seq_bind (for_each (\<lambda>i.
         seq_bind (send_now now ''D'' (order_fields (''WU-ADD-'' @ str_nat i) symbol ''1'' ''0.01''))
           (\<lambda>_. wait_exec clock (Some ''0''))) (py_range (warmup_count count))) (\<lambda>_.
     seq_bind (lift_res reset) (\<lambda>_.
       for_each (\<lambda>i.
         seq_bind (send_now_timed clock now ''D''
                     (order_fields (''ADD-'' @ str_nat i) symbol ''1'' (price_text 1 (i mod 10)))) (\<lambda>t0.
         seq_bind (wait_exec clock (Some ''0'')) (\<lambda>(_, t1). ret (latency t0 t1)))) (py_range count)))"

text \<open>An order and its cancel; \<open>tm\<close> is the measured send of the cancel.\<close>

definition warm_cancel :: "(nat \<Rightarrow> int) \<Rightarrow> (nat \<Rightarrow> string) \<Rightarrow> string \<Rightarrow> string \<Rightarrow> unit bench_prog" where
  "warm_cancel clock now symbol clord =
     seq_bind (send_now now ''D'' (order_fields clord symbol ''1'' ''0.01'')) (\<lambda>_.
     seq_bind (wait_exec clock (Some ''0'')) (\<lambda>_.
     seq_bind (send_now now ''F'' (cancel_fields clord symbol)) (\<lambda>_.
     seq_bind (wait_exec clock (Some ''4'')) (\<lambda>_. ret ()))))"

definition timed_cancel :: "(nat \<Rightarrow> int) \<Rightarrow> (nat \<Rightarrow> string) \<Rightarrow> string \<Rightarrow> string \<Rightarrow> rat bench_prog" where
  "timed_cancel clock now symbol clord =
     seq_bind (send_now_timed clock now ''F'' (cancel_fields clord symbol)) (\<lambda>t0.
     seq_bind (wait_exec clock (Some ''4'')) (\<lambda>(_, t1). ret (latency t0 t1)))"

definition scenario_cancel :: "(nat \<Rightarrow> int) \<Rightarrow> (nat \<Rightarrow> string) \<Rightarrow> scenario" where
  "scenario_cancel clock now reset count symbol =
     seq_bind (for_each (\<lambda>i. warm_cancel clock now symbol (''WU-CXL-'' @ str_nat i))
       (py_range (warmup_count count))) (\<lambda>_.
     seq_bind (lift_res reset) (\<lambda>_.
       for_each (\<lambda>i.
         seq_bind (send_now now ''D''
                     (order_fields (''CXL-'' @ str_nat i) symbol ''1'' (price_text 2 (i mod 10)))) (\<lambda>_.
         seq_bind (wait_exec clock (Some ''0'')) (\<lambda>_.
           timed_cancel clock now symbol (''CXL-'' @ str_nat i)))) (py_range count)))"

definition scenario_match :: "(nat \<Rightarrow> int) \<Rightarrow> (nat \<Rightarrow> string) \<Rightarrow> scenario" where
  "scenario_match clock now reset count symbol =
     seq_bind (for_each (\<lambda>i.
         seq_bind (send_now now ''D'' (order_fields (''WU-MSELL-'' @ str_nat i) symbol ''2'' ''100.00'')) (\<lambda>_.
         seq_bind (wait_exec clock (Some ''0'')) (\<lambda>_.
         seq_bind (send_now now ''D'' (order_fields (''WU-MBUY-'' @ str_nat i) symbol ''1'' ''100.00'')) (\<lambda>_.
           bench_wait clock (is_fill_of (''WU-MBUY-'' @ str_nat i)))))) (py_range (warmup_count count))) (\<lambda>_.
     seq_bind (lift_res reset) (\<lambda>_.
       for_each (\<lambda>i.
         seq_bind (send_now now ''D'' (order_fields (''MSELL-'' @ str_nat i) symbol ''2'' ''100.00'')) (\<lambda>_.
         seq_bind (wait_exec clock (Some ''0'')) (\<lambda>_.
         seq_bind (send_now_timed clock now ''D''
                     (order_fields (''MBUY-'' @ str_nat i) symbol ''1'' ''100.00'')) (\<lambda>t0.
         seq_bind (bench_wait clock (is_fill_of (''MBUY-'' @ str_nat i))) (\<lambda>(_, t1).
           ret (latency t0 t1)))))) (py_range count)))"

definition scenario_mixed :: "(nat \<Rightarrow> int) \<Rightarrow> (nat \<Rightarrow> string) \<Rightarrow> scenario" where
  "scenario_mixed clock now reset count symbol =
     seq_bind (for_each (\<lambda>i. warm_cancel clock now symbol (''WU-MIX-'' @ str_nat i))
       (py_range (warmup_count count))) (\<lambda>_.
     seq_bind (lift_res reset) (\<lambda>_.
       (let half = max (count div 2) 1; clords = map (\<lambda>i. ''MIX-'' @ str_nat i) (py_range half)
        in seq_bind (for_each (\<lambda>(i, clord).
               send_now now ''D'' (order_fields clord symbol ''1'' (price_text 3 i)))
             (List.enumerate 0 clords)) (\<lambda>_.
           seq_bind (for_each (\<lambda>_. wait_exec clock (Some ''0'')) (py_range half)) (\<lambda>_.
             for_each (timed_cancel clock now symbol) clords)))))"

definition SCENARIOS :: "(nat \<Rightarrow> int) \<Rightarrow> (nat \<Rightarrow> string) \<Rightarrow> (string, scenario \<times> string) dict" where
  "SCENARIOS clock now =
     [(''add'', (scenario_add clock now, ''AAPL'')), (''cancel'', (scenario_cancel clock now, ''MSFT'')),
      (''match'', (scenario_match clock now, ''GOOG'')), (''mixed'', (scenario_mixed clock now, ''AMZN''))]"

section \<open>Prices\<close>

lemma rne_near: "\<bar>x - of_int n\<bar> < 1 / 2 \<Longrightarrow> rne x = n"
proof -
  assume x: "\<bar>x - of_int n\<bar> < 1 / 2"
  then have "\<bar>of_int (rne x) - of_int n :: rat\<bar> < 1"
    using rne_error [of x] by linarith
  then have "\<bar>of_int (rne x - n) :: rat\<bar> < of_int 1" by simp
  then have "\<bar>rne x - n\<bar> < 1" by (metis of_int_abs of_int_less_iff)
  then show ?thesis by simp
qed

lemma price_error:
  assumes "0 \<le> base" "base \<le> 1000" "k \<le> 10 ^ 9"
  shows "\<bar>py_add (of_int base) (py_mul (of_nat k) (fl (1 / 100))) - (of_int base + of_nat k / 100)\<bar> < 1 / 200"
proof -
  let ?c = "fl (1 / 100)" and ?k = "of_nat k :: rat" and ?b = "of_int base :: rat"
  have "?k \<le> of_nat (10 ^ 9)" using assms(3) by (simp only: of_nat_le_iff)
  then have k: "0 \<le> ?k" "?k \<le> 10 ^ 9" by (simp_all only: of_nat_power of_nat_numeral of_nat_0_le_iff)
  have "?b \<le> of_int 1000" using assms(2) by (simp only: of_int_le_iff)
  then have b: "0 \<le> ?b" "?b \<le> 1000" using assms(1) by simp_all
  have "\<bar>1 / 100 - ?c\<bar> \<le> 2 powi (- 6 - 54)" by (rule fl_error_bound) (simp_all add: power_int_minus)
  then have c: "\<bar>1 / 100 - ?c\<bar> \<le> 1 / 2 ^ 60" by (simp add: power_int_minus divide_simps)
  have "?k / 100 - ?k * ?c = ?k * (1 / 100 - ?c)" by (simp add: right_diff_distrib)
  then have "\<bar>?k / 100 - ?k * ?c\<bar> = ?k * \<bar>1 / 100 - ?c\<bar>" using k(1) by (simp only: abs_mult abs_of_nonneg)
  also have "\<dots> \<le> 10 ^ 9 * (1 / 2 ^ 60)" using k c by (intro mult_mono) auto
  finally have p1: "\<bar>?k / 100 - ?k * ?c\<bar> \<le> 1 / 2 ^ 30" by simp
  have k9: "(10 :: rat) ^ 9 = 1000000000" "(1 :: rat) / 2 ^ 30 \<le> 1" by simp_all
  have pw: "(2 :: rat) powi 24 = 16777216" "(2 :: rat) powi 25 = 33554432" by simp_all
  have "\<bar>?k * ?c\<bar> < 2 powi 24" using p1 k k9 unfolding pw by linarith
  from fl_error_bound [OF this] have p2: "\<bar>?k * ?c - fl (?k * ?c)\<bar> \<le> 1 / 2 ^ 30"
    by (simp add: power_int_minus divide_simps)
  have "\<bar>?b + fl (?k * ?c)\<bar> < 2 powi 25" using p1 p2 k b k9 unfolding pw by linarith
  from fl_error_bound [OF this] have p3: "\<bar>?b + fl (?k * ?c) - fl (?b + fl (?k * ?c))\<bar> \<le> 1 / 2 ^ 29"
    by (simp add: power_int_minus divide_simps)
  have "(1 :: rat) / 2 ^ 30 < 1 / 1000" "(1 :: rat) / 2 ^ 29 < 1 / 1000" by simp_all
  then show ?thesis using p1 p2 p3 unfolding py_add_def py_mul_def by linarith
qed

text \<open>
  C25: The limit prices of the scenarios are exact. The text of \<open>base + k * 0.01\<close> to two
  decimals is the decimal notation of the exact price, for every base up to 1000 and every
  order index up to a thousand million, although 0.01 is not a double and the product and the
  sum are rounded.
\<close>

theorem price_text_exact:
  assumes "0 \<le> base" "base \<le> 1000" "k \<le> 10 ^ 9"
  shows "price_text base k =
    str_int (base + int k div 100) @ ''.'' @ pad_zeros 2 (str_int (int k mod 100))"
proof -
  let ?x = "py_add (of_int base) (py_mul (of_nat k) (fl (1 / 100)))"
  have "0 \<le> fl (1 / 100)" by (rule fl_nonneg) simp
  then have pos: "0 \<le> ?x" using assms(1) unfolding py_add_def py_mul_def by (intro fl_nonneg add_nonneg_nonneg) simp_all
  have "\<bar>?x * 100 - (of_int (100 * base + int k))\<bar> < 1 / 2"
    using price_error [OF assms] by (simp add: abs_less_iff field_simps)
  then have "rne (\<bar>?x\<bar> * 10 ^ 2) = 100 * base + int k" using pos by (intro rne_near) simp
  then have "price_text base k = str_int ((100 * base + int k) div 100) @ ''.'' @
      pad_zeros 2 (str_int ((100 * base + int k) mod 100))"
    using pos by (simp add: price_text_def fmt_fixed_def Let_def)
  then show ?thesis by simp
qed

theorem price_text_exact_witness: "price_text 3 12345 = ''126.45''"
proof -
  have "str_int 126 = ''126''" "pad_zeros 2 (str_int 45) = ''45''" by code_simp+
  then show ?thesis using price_text_exact [of 3 12345] by simp
qed

section \<open>What a scenario sends and returns\<close>

text \<open>\<open>sends n p\<close>: whenever \<open>p\<close> returns, it has put exactly \<open>n\<close> messages on the wire.\<close>

definition sends :: "nat \<Rightarrow> 'a bench_prog \<Rightarrow> bool" where
  "sends n p \<longleftrightarrow> (\<forall>s x s'. p s = (Inr x, s') \<longrightarrow> length (bs_out s') = length (bs_out s) + n)"

named_theorems sends_intros

lemma sends_bind [sends_intros]: "sends n p \<Longrightarrow> (\<And>x. sends m (f x)) \<Longrightarrow> sends (n + m) (seq_bind p f)"
  unfolding sends_def seq_bind_Inr by fastforce

lemma sends_ret [sends_intros]: "sends 0 (ret x)" "sends 0 (lift_res r)"
  by (simp_all add: sends_def)

lemma sends_send_now [sends_intros]:
  "sends 1 (send_now now mt f)" "sends 1 (send_now_timed clock now mt f)"
  by (auto simp: sends_def send_now_def send_now_timed_def bench_send_timed_def bench_send_def
      perf_counter_ns_def seq_bind_Inr split: sum.splits)

lemma bench_recv_timed_out: "bench_recv_timed clock s = (r, s') \<Longrightarrow> bs_out s' = bs_out s"
  by (auto simp: bench_recv_timed_def bench_recv_raw_def seq_bind_def perf_counter_ns_def
      split: prod.splits sum.splits)

lemma sends_wait [sends_intros]: "sends 0 (bench_wait clock wanted)" "sends 0 (wait_exec clock et)"
proof -
  have "bs_out s' = bs_out s" if "bench_wait clock w s = (r, s')" for w s r s'
    using that
  proof (induction clock w s arbitrary: r s' rule: bench_wait.induct)
    case (1 clock w s)
    then show ?case
      by (subst (asm) (2) bench_wait.simps)
         (auto split: prod.splits sum.splits if_splits dest: bench_recv_timed_out)
  qed
  then show "sends 0 (bench_wait clock wanted)" "sends 0 (wait_exec clock et)"
    by (simp_all add: sends_def wait_exec_def)
qed

lemma sends_for_each [sends_intros]:
  "(\<And>x. sends n (body x)) \<Longrightarrow> sends (n * length xs) (for_each body xs)"
proof (induction xs)
  case (Cons x xs)
  then have "sends (n + (n * length xs + 0)) (for_each body (x # xs))"
    unfolding for_each.simps by (intro sends_bind sends_ret) auto
  then show ?case by simp
qed (simp add: sends_ret)

lemma sends_case_prod [sends_intros]: "(\<And>a b. sends n (f a b)) \<Longrightarrow> sends n (case x of (a, b) \<Rightarrow> f a b)"
  by (cases x) simp

lemma sends_eq: "sends n p \<Longrightarrow> n = m \<Longrightarrow> sends m p"
  by simp

lemmas scenario_defs = scenario_add_def scenario_cancel_def scenario_match_def scenario_mixed_def
  warm_cancel_def timed_cancel_def

text \<open>
  \<open>measured p\<close>: what \<open>p\<close> returns is a double, never negative on a clock that does not run
  backwards.
\<close>

definition measured :: "(nat \<Rightarrow> int) \<Rightarrow> rat bench_prog \<Rightarrow> bool" where
  "measured clock p \<longleftrightarrow> (\<forall>s l s'. p s = (Inr l, s') \<longrightarrow> is_double l \<and> (mono clock \<longrightarrow> 0 \<le> l))"

lemma bench_wait_ticks:
  "bench_wait clock wanted s = (Inr (msg, t1), s') \<Longrightarrow> \<exists>k \<ge> bs_ticks s. t1 = clock k"
proof (induction clock wanted s rule: bench_wait.induct)
  case (1 clock wanted s)
  obtain r u where u: "bench_recv_timed clock s = (r, u)" by (cases "bench_recv_timed clock s")
  with 1 obtain m ts where r: "r = Inr (m, ts)"
    by (cases r) (auto simp: bench_wait.simps [of clock wanted s])
  then have t: "ts = clock (bs_ticks s)" "bs_ticks u = Suc (bs_ticks s)"
    using u by (auto simp: bench_recv_timed_def bench_recv_raw_def seq_bind_Inr perf_counter_ns_def
        split: prod.splits)
  show ?case
  proof (cases "wanted m")
    case True
    then show ?thesis using 1 u r t by (auto simp: bench_wait.simps [of clock wanted s])
  next
    case False
    then have "\<exists>k \<ge> bs_ticks u. t1 = clock k"
      using 1 u r by (simp add: bench_wait.simps [of clock wanted s])
    then show ?thesis using t(2) by (auto intro: Suc_leD)
  qed
qed

lemma measured_round:
  "measured clock (seq_bind (send_now_timed clock now mt f) (\<lambda>t0.
     seq_bind (bench_wait clock wanted) (\<lambda>(_, t1). ret (latency t0 t1))))"
proof -
  have "0 \<le> latency t0 t1"
    if "mono clock" "send_now_timed clock now mt f s = (Inr t0, u)" "bench_wait clock wanted u = (Inr (m, t1), v)"
    for s t0 u m t1 v
  proof -
    note w = that(3)
    have "t0 = clock (bs_ticks s)" "bs_ticks u = Suc (bs_ticks s)"
      using that(2) by (auto simp: send_now_timed_def bench_send_timed_def bench_send_def seq_bind_Inr
          perf_counter_ns_def split: sum.splits)
    moreover obtain k where "bs_ticks u \<le> k" "t1 = clock k" using bench_wait_ticks [OF w] by blast
    ultimately have "t0 \<le> t1" using that(1) by (auto intro: monoD)
    then show ?thesis by (simp add: latency_def fl_nonneg)
  qed
  then show ?thesis by (auto simp: measured_def seq_bind_Inr latency_def fl_double split: prod.splits)
qed

lemma measured_bind: "(\<And>x. measured clock (f x)) \<Longrightarrow> measured clock (seq_bind p f)"
  by (auto simp: measured_def seq_bind_Inr)

lemma measured_each:
  assumes "\<And>x. measured clock (body x)" "for_each body xs s = (Inr ls, s')"
  shows "length ls = length xs" "list_all (\<lambda>l. is_double l \<and> (mono clock \<longrightarrow> 0 \<le> l)) ls"
proof -
  show "length ls = length xs" using assms(2) by (rule for_each_length)
  have "list_all2 (\<lambda>_ l. is_double l \<and> (mono clock \<longrightarrow> 0 \<le> l)) xs ls"
    using assms(1) by (intro for_each_results [OF assms(2)]) (auto simp: measured_def)
  then show "list_all (\<lambda>l. is_double l \<and> (mono clock \<longrightarrow> 0 \<le> l)) ls"
    by (auto simp: list_all2_conv_all_nth list_all_length)
qed

text \<open>
  \<open>records n m p\<close>: whenever \<open>p\<close> returns, it has sent \<open>m\<close> messages and returns \<open>n\<close> latencies,
  all doubles and none negative on a clock that does not run backwards.
\<close>

definition records :: "(nat \<Rightarrow> int) \<Rightarrow> nat \<Rightarrow> nat \<Rightarrow> rat list bench_prog \<Rightarrow> bool" where
  "records clock n m p \<longleftrightarrow> sends m p \<and>
     (\<forall>s ls s'. p s = (Inr ls, s') \<longrightarrow>
        length ls = n \<and> list_all (\<lambda>l. is_double l \<and> (mono clock \<longrightarrow> 0 \<le> l)) ls)"

lemma recordsI:
  "sends m p \<Longrightarrow> (\<And>s ls s'. p s = (Inr ls, s') \<Longrightarrow>
     length ls = n \<and> list_all (\<lambda>l. is_double l \<and> (mono clock \<longrightarrow> 0 \<le> l)) ls) \<Longrightarrow> records clock n m p"
  by (simp add: records_def)

lemma measured_results:
  "(\<And>x. measured clock (body x)) \<Longrightarrow> n = length xs \<Longrightarrow>
   for_each body xs s = (Inr ls, s') \<Longrightarrow> length ls = n \<and> list_all (\<lambda>l. is_double l \<and> (mono clock \<longrightarrow> 0 \<le> l)) ls"
  using measured_each [of clock body xs s ls s'] by blast

lemma measured_rounds:
  "measured clock (timed_cancel clock now symbol clord)"
  "measured clock (seq_bind (send_now_timed clock now mt f) (\<lambda>t0.
     seq_bind (wait_exec clock et) (\<lambda>(_, t1). ret (latency t0 t1))))"
  unfolding timed_cancel_def wait_exec_def by (rule measured_round)+

lemma scenario_sends:
  "sends (nat (warmup_count count) + nat count) (scenario_add clock now reset count symbol)"
  "sends (2 * nat (warmup_count count) + 2 * nat count) (scenario_cancel clock now reset count symbol)"
  "sends (2 * nat (warmup_count count) + 2 * nat count) (scenario_match clock now reset count symbol)"
  "sends (2 * nat (warmup_count count) + 2 * nat (max (count div 2) 1))
     (scenario_mixed clock now reset count symbol)"
  unfolding scenario_defs Let_def by (rule sends_eq, (rule sends_intros)+, simp)+

lemma scenario_counts:
  "records clock (nat count) (nat (warmup_count count) + nat count)
     (scenario_add clock now reset count symbol) \<and>
   records clock (nat count) (2 * nat (warmup_count count) + 2 * nat count)
     (scenario_cancel clock now reset count symbol) \<and>
   records clock (nat count) (2 * nat (warmup_count count) + 2 * nat count)
     (scenario_match clock now reset count symbol) \<and>
   records clock (nat (max (count div 2) 1))
     (2 * nat (warmup_count count) + 2 * nat (max (count div 2) 1))
     (scenario_mixed clock now reset count symbol)"
proof (intro conjI)
  note last = measured_results [rotated 2] and m = measured_bind measured_round measured_rounds
  show "records clock (nat count) (nat (warmup_count count) + nat count)
     (scenario_add clock now reset count symbol)"
    by (rule recordsI [OF scenario_sends(1)])
       (auto simp only: scenario_add_def seq_bind_Inr length_upt diff_zero intro!: m elim!: last)
  show "records clock (nat count) (2 * nat (warmup_count count) + 2 * nat count)
     (scenario_cancel clock now reset count symbol)"
    by (rule recordsI [OF scenario_sends(2)])
       (auto simp only: scenario_cancel_def seq_bind_Inr length_upt diff_zero intro!: m elim!: last)
  show "records clock (nat count) (2 * nat (warmup_count count) + 2 * nat count)
     (scenario_match clock now reset count symbol)"
    by (rule recordsI [OF scenario_sends(3)])
       (auto simp only: scenario_match_def seq_bind_Inr length_upt diff_zero intro!: m elim!: last)
  show "records clock (nat (max (count div 2) 1))
     (2 * nat (warmup_count count) + 2 * nat (max (count div 2) 1))
     (scenario_mixed clock now reset count symbol)"
    by (rule recordsI [OF scenario_sends(4)])
       (auto simp only: scenario_mixed_def Let_def seq_bind_Inr length_map length_upt diff_zero intro!: m elim!: last)
qed


section \<open>Runs against a responsive exchange\<close>

text \<open>
  \<open>completes ms p\<close>: when the socket delivers the messages \<open>ms\<close> and nothing is buffered, \<open>p\<close>
  returns, having read exactly those messages.
\<close>

definition completes :: "bytes list \<Rightarrow> 'a bench_prog \<Rightarrow> bool" where
  "completes ms p \<longleftrightarrow>
     (\<forall>s net. bs_buf s = [] \<and> list_all is_ascii (bs_sender s) \<and> bs_net s = map Chunk ms @ net \<longrightarrow>
       (\<exists>x s'. p s = (Inr x, s') \<and> bs_buf s' = [] \<and> bs_net s' = net \<and> bs_sender s' = bs_sender s))"

named_theorems completes_intros

lemma completes_bind [completes_intros]:
  assumes "completes ms p" "\<And>x. completes ns (f x)"
  shows "completes (ms @ ns) (seq_bind p f)"
  unfolding completes_def
proof (intro allI impI)
  fix s :: bench_session and net
  assume s: "bs_buf s = [] \<and> list_all is_ascii (bs_sender s) \<and> bs_net s = map Chunk (ms @ ns) @ net"
  then obtain x u where u: "p s = (Inr x, u)" "bs_buf u = []" "bs_net u = map Chunk ns @ net"
      "bs_sender u = bs_sender s"
    using assms(1) [unfolded completes_def, rule_format, of s "map Chunk ns @ net"] by auto
  then obtain y v where "f x u = (Inr y, v)" "bs_buf v = []" "bs_net v = net" "bs_sender v = bs_sender u"
    using assms(2) [unfolded completes_def, rule_format, of u net x] s by auto
  then show "\<exists>y v. seq_bind p f s = (Inr y, v) \<and> bs_buf v = [] \<and> bs_net v = net \<and> bs_sender v = bs_sender s"
    using u by (auto simp: seq_bind_simps)
qed

lemma completes_ret [completes_intros]: "completes [] (ret x)" "completes [] (lift_res (Inr y))"
  by (simp_all add: completes_def)

lemma completes_case_prod [completes_intros]:
  "(\<And>a b. completes ms (f a b)) \<Longrightarrow> completes ms (case x of (a, b) \<Rightarrow> f a b)"
  by (cases x) simp

lemma completes_for_each [completes_intros]:
  "(\<And>x. completes (r x) (body x)) \<Longrightarrow> completes (concat (map r xs)) (for_each body xs)"
proof (induction xs)
  case (Cons x xs)
  then have "completes (concat (map r xs) @ []) (seq_bind (for_each body xs) (\<lambda>ys. ret (y # ys)))" for y
    by (intro completes_bind completes_ret) auto
  then have "completes (r x @ concat (map r xs)) (for_each body (x # xs))"
    unfolding for_each.simps using Cons.prems by (intro completes_bind) auto
  then show ?case by simp
qed (simp add: completes_ret)

text \<open>An answer: a framed message the client waits for, after any number it does not.\<close>

definition answers :: "((string, string) dict \<Rightarrow> bool) \<Rightarrow> bytes list \<Rightarrow> bool" where
  "answers wanted ms \<longleftrightarrow> ms \<noteq> [] \<and> list_all framed ms \<and> wanted (bench_parse (last ms)) \<and>
     list_all (\<lambda>m. \<not> wanted (bench_parse m)) (butlast ms)"

abbreviation exec_answer :: "string \<Rightarrow> bytes list \<Rightarrow> bool" where
  "exec_answer et \<equiv> answers (\<lambda>msg. map_of msg ''35'' = Some ''8'' \<and> map_of msg ''150'' = Some et)"

lemma completes_wait [completes_intros]:
  "answers wanted ms \<Longrightarrow> completes ms (bench_wait clock wanted)"
  unfolding completes_def
proof (intro allI impI)
  fix s :: bench_session and net
  assume a: "answers wanted ms"
    and s: "bs_buf s = [] \<and> list_all is_ascii (bs_sender s) \<and> bs_net s = map Chunk ms @ net"
  have ms: "ms = butlast ms @ [last ms]" using a by (simp add: answers_def)
  have fr: "list_all framed (butlast ms)" "framed (last ms)"
    using a by (auto simp: answers_def list_all_iff dest: in_set_butlastD)
  have "bs_net s = map Chunk (butlast ms) @ Chunk (last ms) # net"
    using s ms by (metis (no_types, lifting) append_Cons append_Nil append_assoc list.simps(8,9) map_append)
  then show "\<exists>x s'. bench_wait clock wanted s = (Inr x, s') \<and> bs_buf s' = [] \<and> bs_net s' = net \<and> bs_sender s' = bs_sender s"
    using bench_wait_stream [OF fr, of wanted s net clock] a s by (simp add: answers_def)
qed

lemma completes_wait_exec [completes_intros]: "exec_answer et ms \<Longrightarrow> completes ms (wait_exec clock (Some et))"
  unfolding wait_exec_def by (rule completes_wait) simp

lemma str_int_ascii [simp]: "list_all is_ascii (str_int i)"
  by (simp add: str_int_def is_ascii_def)

lemma ascii_char [simp]: "is_ascii CHR ''0''" "is_ascii CHR ''.''" "is_ascii CHR ''-''"
  by (simp_all add: is_ascii_def)

lemma price_text_ascii [simp]: "list_all is_ascii (price_text base k)"
proof -
  have "list_all is_ascii (pad_zeros n (str_int i))" for n i
    using str_int_ascii [of i] by (auto simp: pad_zeros_def list_all_iff)
  then show ?thesis by (simp add: price_text_def fmt_fixed_def Let_def)
qed

definition ascii_fields :: "(string \<times> string) list \<Rightarrow> bool" where
  "ascii_fields flds \<longleftrightarrow> list_all (\<lambda>(k, v). list_all is_ascii k \<and> list_all is_ascii v) flds"

lemma bench_send_ascii:
  assumes "list_all is_ascii ts" "list_all is_ascii mt" "list_all is_ascii (bs_sender s)" "ascii_fields flds"
  shows "\<exists>m. bench_send ts mt flds s = (Inr (), s\<lparr>bs_out := bs_out s @ [m], bs_seq := bs_seq s + 1\<rparr>)"
proof -
  have "list_all is_ascii (fields_text flds)"
    using assms(4) by (induction flds) (auto simp: ascii_fields_def fields_text_def field_text_def is_ascii_def)
  then have "list_all is_ascii (fields_text (message_fields ts mt (bs_seq s) flds (bs_sender s)))"
    using assms(1-3)
    by (simp add: message_fields_def header_fields_def field_text_def TARGET_def is_ascii_def)
  from bench.build_frame [OF this] show ?thesis by (auto simp: bench_send_def)
qed

lemma completes_send [completes_intros]:
  assumes "\<And>n. list_all is_ascii (now n)" "list_all is_ascii mt" "\<And>ts. list_all is_ascii ts \<Longrightarrow> ascii_fields (f ts)"
  shows "completes [] (send_now now mt f)" "completes [] (send_now_timed clock now mt f)"
proof -
  have "\<exists>m. bench_send (now (2 * bs_seq s + 1)) mt (f (now (2 * bs_seq s))) s =
      (Inr (), s\<lparr>bs_out := bs_out s @ [m], bs_seq := bs_seq s + 1\<rparr>)" if "list_all is_ascii (bs_sender s)" for s
    using assms that by (intro bench_send_ascii) auto
  note sent = this
  show "completes [] (send_now now mt f)"
    unfolding completes_def send_now_def using sent by fastforce
  show "completes [] (send_now_timed clock now mt f)"
    unfolding completes_def send_now_timed_def bench_send_timed_def perf_counter_ns_def seq_bind_def
    using sent by fastforce
qed

lemma request_fields_ascii [completes_intros]:
  "list_all is_ascii clord \<Longrightarrow> list_all is_ascii symbol \<Longrightarrow> list_all is_ascii side \<Longrightarrow> list_all is_ascii price \<Longrightarrow>
   list_all is_ascii ts \<Longrightarrow> ascii_fields (order_fields clord symbol side price ts)"
  "list_all is_ascii clord \<Longrightarrow> list_all is_ascii symbol \<Longrightarrow> list_all is_ascii ts \<Longrightarrow>
   ascii_fields (cancel_fields clord symbol ts)"
  by (simp_all add: ascii_fields_def order_fields_def cancel_fields_def is_ascii_def)

lemma completes_eq: "completes ns p \<Longrightarrow> ns = ms \<Longrightarrow> completes ms p"
  by simp

lemma completes_run:
  assumes "completes ms p" "records clock n m p"
    and "bs_buf s = []" "list_all is_ascii (bs_sender s)" "bs_net s = map Chunk ms @ net"
  shows "\<exists>ls s'. p s = (Inr ls, s') \<and> length ls = n \<and> bs_net s' = net \<and> length (bs_out s') = length (bs_out s) + m"
proof -
  obtain ls s' where "p s = (Inr ls, s')" "bs_net s' = net"
    using assms(1) [unfolded completes_def, rule_format, of s net] assms(3-5) by auto
  then show ?thesis using assms(2) unfolding records_def sends_def by blast
qed

lemma enumerate_map_upt: "List.enumerate 0 (map f [0..<n]) = map (\<lambda>i. (i, f i)) [0..<n]"
  by (simp add: enumerate_eq_zip zip_map2 zip_same_conv_map)

lemma completes_cancels:
  assumes "\<And>n. list_all is_ascii (now n)" "list_all is_ascii symbol" "list_all is_ascii clord"
  shows "exec_answer ''0'' a \<Longrightarrow> exec_answer ''4'' b \<Longrightarrow> completes (a @ b) (warm_cancel clock now symbol clord)"
    and "exec_answer ''4'' b \<Longrightarrow> completes b (timed_cancel clock now symbol clord)"
proof -
  have asc: "list_all is_ascii ''D''" "list_all is_ascii ''F''" "list_all is_ascii ''1''" "list_all is_ascii ''0.01''"
    by (simp_all add: is_ascii_def)
  show "completes (a @ b) (warm_cancel clock now symbol clord)" if "exec_answer ''0'' a" "exec_answer ''4'' b"
    unfolding warm_cancel_def
    by (rule completes_eq, (rule completes_intros assms asc that | assumption)+) simp
  show "completes b (timed_cancel clock now symbol clord)" if "exec_answer ''4'' b"
    unfolding timed_cancel_def
    by (rule completes_eq, (rule completes_intros assms asc that | assumption)+) simp
qed

lemma scenarios_finish:
  assumes now: "\<And>n. list_all is_ascii (now n)" and symbol: "list_all is_ascii symbol"
    and acks: "\<And>i. exec_answer ''0'' (wack i)" "\<And>i. exec_answer ''0'' (ack i)"
    and cxls: "\<And>i. exec_answer ''4'' (wcxl i)" "\<And>i. exec_answer ''4'' (cxl i)"
    and fills: "\<And>i. answers (is_fill_of (''WU-MBUY-'' @ str_nat i)) (wfill i)"
               "\<And>i. answers (is_fill_of (''MBUY-'' @ str_nat i)) (fill i)"
    and ranges: "warm = py_range (warmup_count count)" "half = py_range (max (count div 2) 1)"
  shows "completes (concat (map wack warm) @ concat (map ack (py_range count)))
           (scenario_add clock now (Inr ()) count symbol) \<and>
         completes (concat (map (\<lambda>i. wack i @ wcxl i) warm) @ concat (map (\<lambda>i. ack i @ cxl i) (py_range count)))
           (scenario_cancel clock now (Inr ()) count symbol) \<and>
         completes (concat (map (\<lambda>i. wack i @ wfill i) warm) @ concat (map (\<lambda>i. ack i @ fill i) (py_range count)))
           (scenario_match clock now (Inr ()) count symbol) \<and>
         completes (concat (map (\<lambda>i. wack i @ wcxl i) warm) @ concat (map ack half) @ concat (map cxl half))
           (scenario_mixed clock now (Inr ()) count symbol)"
proof -
  have asc: "list_all is_ascii ''D''" "list_all is_ascii ''F''" "list_all is_ascii ''1''" "list_all is_ascii ''2''"
      "list_all is_ascii ''0.01''" "list_all is_ascii ''100.00''"
    by (simp_all add: is_ascii_def)
  have ids: "list_all is_ascii (''WU-ADD-'' @ str_nat i)" "list_all is_ascii (''ADD-'' @ str_nat i)"
      "list_all is_ascii (''WU-CXL-'' @ str_nat i)" "list_all is_ascii (''CXL-'' @ str_nat i)"
      "list_all is_ascii (''WU-MSELL-'' @ str_nat i)" "list_all is_ascii (''MSELL-'' @ str_nat i)"
      "list_all is_ascii (''WU-MBUY-'' @ str_nat i)" "list_all is_ascii (''MBUY-'' @ str_nat i)"
      "list_all is_ascii (''WU-MIX-'' @ str_nat i)" "list_all is_ascii (''MIX-'' @ str_nat i)" for i
    by (simp_all add: is_ascii_def)
  note rules = completes_intros now symbol acks cxls fills asc ids price_text_ascii completes_cancels [OF now symbol]
  have "completes (concat (map wack warm) @ concat (map ack (py_range count)))
      (scenario_add clock now (Inr ()) count symbol)"
    unfolding scenario_add_def ranges by (rule completes_eq, (rule rules | assumption)+) simp
  moreover have "completes (concat (map (\<lambda>i. wack i @ wcxl i) warm) @ concat (map (\<lambda>i. ack i @ cxl i) (py_range count)))
      (scenario_cancel clock now (Inr ()) count symbol)"
    unfolding scenario_cancel_def ranges by (rule completes_eq, (rule rules | assumption)+) simp
  moreover have "completes (concat (map (\<lambda>i. wack i @ wfill i) warm) @ concat (map (\<lambda>i. ack i @ fill i) (py_range count)))
      (scenario_match clock now (Inr ()) count symbol)"
    unfolding scenario_match_def ranges by (rule completes_eq, (rule rules | assumption)+) simp
  moreover have "completes (concat (map (\<lambda>i. wack i @ wcxl i) warm) @ concat (map ack half) @ concat (map cxl half))
      (scenario_mixed clock now (Inr ()) count symbol)"
  proof -
    have "completes (concat (map (\<lambda>i. wack i @ wcxl i) warm) @ [] @ concat (map (\<lambda>_. []) half) @
         concat (map ack half) @ concat (map cxl half)) (scenario_mixed clock now (Inr ()) count symbol)"
      unfolding scenario_mixed_def ranges Let_def enumerate_map_upt for_each_map prod.case
      by (intro completes_bind completes_for_each rules) assumption
    moreover have "concat (map (\<lambda>_. []) xs) = ([] :: bytes list)" for xs :: "nat list" by (induction xs) simp_all
    ultimately show ?thesis by simp
  qed
  ultimately show ?thesis by blast
qed

text \<open>
  C19: Against an exchange that answers, every scenario runs to its end: given an acknowledgement
  for every order, a cancel report for every cancel and a fill for every aggressive order, each
  after any number of other messages, the scenario returns, having read exactly those answers.
  For \<open>mixed\<close> the acknowledgements of the preloaded orders are read after all of them are sent.
\<close>

theorem scenarios_complete:
  assumes now: "\<And>n. list_all is_ascii (now n)" and symbol: "list_all is_ascii symbol"
    and acks: "\<And>i. exec_answer ''0'' (wack i)" "\<And>i. exec_answer ''0'' (ack i)"
    and cxls: "\<And>i. exec_answer ''4'' (wcxl i)" "\<And>i. exec_answer ''4'' (cxl i)"
    and fills: "\<And>i. answers (is_fill_of (''WU-MBUY-'' @ str_nat i)) (wfill i)"
               "\<And>i. answers (is_fill_of (''MBUY-'' @ str_nat i)) (fill i)"
    and ranges: "warm = py_range (warmup_count count)" "half = py_range (max (count div 2) 1)"
  shows "completes (concat (map wack warm) @ concat (map ack (py_range count)))
           (scenario_add clock now (Inr ()) count symbol) \<and>
         completes (concat (map (\<lambda>i. wack i @ wcxl i) warm) @ concat (map (\<lambda>i. ack i @ cxl i) (py_range count)))
           (scenario_cancel clock now (Inr ()) count symbol) \<and>
         completes (concat (map (\<lambda>i. wack i @ wfill i) warm) @ concat (map (\<lambda>i. ack i @ fill i) (py_range count)))
           (scenario_match clock now (Inr ()) count symbol) \<and>
         completes (concat (map (\<lambda>i. wack i @ wcxl i) warm) @ concat (map ack half) @ concat (map cxl half))
           (scenario_mixed clock now (Inr ()) count symbol)"
  by (rule scenarios_finish [OF assms])

definition fill_frame :: "string \<Rightarrow> bytes" where
  "fill_frame clord = frame_text [(''35'', ''8''), (''150'', ''2''), (''11'', clord)]"

lemma fill_frame_answers:
  assumes "\<And>c. c \<in> set clord \<Longrightarrow> is_ascii c \<and> c \<noteq> SEP \<and> c \<noteq> CHR ''=''"
  shows "answers (is_fill_of clord) [fill_frame clord]"
proof -
  let ?kvs = "[(''35'', ''8''), (''150'', ''2''), (''11'', clord)]"
  have plain: "list_all field_plain ?kvs"
    using assms by (auto simp: field_plain_def field_ok_def is_ascii_def suffix_def list_all_iff Cons_eq_append_conv)
  then have "list_all field_ok ?kvs" by (auto simp: field_plain_def list_all_iff)
  then have "bench_parse (fill_frame clord) =
      dict_of (frame_fields ?kvs @ [(''10'', fmt_03d (byte_sum (fields_text (frame_fields ?kvs))))])"
    unfolding fill_frame_def by (rule bench.parse_frame)
  then have "is_fill_of clord (bench_parse (fill_frame clord))"
    by (simp add: is_fill_of_def frame_fields_def dict_of_distinct)
  then show ?thesis using framed_frame_text [OF plain] by (simp add: answers_def fill_frame_def)
qed

lemma example_exec_answers: "exec_answer ''0'' [example_exec ''0'']" "exec_answer ''4'' [example_exec ''4'']"
  by code_simp+

lemma fill_frames:
  assumes "pre \<in> {''WU-MBUY-'', ''MBUY-''}"
  shows "answers (is_fill_of (pre @ str_nat i)) [fill_frame (pre @ str_nat i)]"
  using assms str_nat_ascii [of i] notin_str_nat [of SEP i] notin_str_nat [of "CHR ''=''" i]
  by (intro fill_frame_answers) (auto simp: list_all_iff is_ascii_def)

theorem scenarios_complete_witness:
  "completes (concat (map (\<lambda>i. [example_exec ''0'', example_exec ''4'']) (py_range 50)) @
      [example_exec ''0''] @ [example_exec ''4''])
     (scenario_mixed (\<lambda>k. int k) (\<lambda>n. ''20260101-00:00:00.000'') (Inr ()) 2 ''AMZN'')"
proof -
  have asc: "list_all is_ascii ''20260101-00:00:00.000''" "list_all is_ascii ''AMZN''"
    by (simp_all add: is_ascii_def)
  have w: "warmup_count 2 = 50" by code_simp
  have rest: "py_range 50 = py_range (warmup_count 2)" "[0] = py_range (max (2 div 2) 1)" by (simp_all add: w)
  have fills: "answers (is_fill_of (''WU-MBUY-'' @ str_nat i)) [fill_frame (''WU-MBUY-'' @ str_nat i)]"
    "answers (is_fill_of (''MBUY-'' @ str_nat i)) [fill_frame (''MBUY-'' @ str_nat i)]" for i
    by (rule fill_frames; blast)+
  show ?thesis
    using scenarios_complete [OF asc example_exec_answers(1,1,2,2) fills rest, of "\<lambda>k. int k"] by simp
qed

end
