(* ===== verification/BenchStats.thy ===== *)
theory BenchStats
  imports PyState
begin

text \<open>
  The statistics of \<open>bench/bench.py\<close>: \<open>_pct\<close>, \<open>compute_stats\<close>, the cells of the result table
  and the histogram of \<open>_rich_histograms\<close>. Samples are doubles. \<open>sum\<close> is the left-to-right sum
  of double additions (CPython before 3.12; later releases compensate, which changes the mean by
  rounding only). Percentiles are called with whole numbers.
\<close>

section \<open>Definitions\<close>

definition list_index :: "'a list \<Rightarrow> int \<Rightarrow> 'a res" where
  "list_index xs i =
     (let n = int (length xs); j = (if i < 0 then i + n else i)
      in if 0 \<le> j \<and> j < n then Inr (xs ! nat j) else Inl IndexError)"

definition bench_pct :: "rat list \<Rightarrow> int \<Rightarrow> rat res" where
  "bench_pct data p =
     (if data = [] then Inr 0
      else let s = sort data; idx = fl (of_int ((int (length s) - 1) * p) / 100);
               lo = py_trunc idx; hi = min (py_trunc idx + 1) (int (length s) - 1)
           in res_bind (list_index s lo) (\<lambda>a.
              res_bind (list_index s hi) (\<lambda>b.
                Inr (py_add a (py_mul (py_sub b a) (py_sub idx (of_int lo)))))))"

definition py_sum :: "rat list \<Rightarrow> rat" where
  "py_sum xs = foldl py_add 0 xs"

record bench_stats =
  bst_n :: nat
  bst_mean :: rat
  bst_p50 :: rat
  bst_p95 :: rat
  bst_p99 :: rat
  bst_max :: rat
  bst_ops_sec :: rat

definition compute_stats :: "rat list \<Rightarrow> bench_stats res" where
  "compute_stats latencies =
     (let n = length latencies
      in res_bind (if n \<noteq> 0 then py_div (py_sum latencies) (of_nat n) else Inr 0) (\<lambda>mean.
         res_bind (bench_pct latencies 50) (\<lambda>p50.
         res_bind (bench_pct latencies 95) (\<lambda>p95.
         res_bind (bench_pct latencies 99) (\<lambda>p99.
         res_bind (if mean \<noteq> 0 then py_div 1000000 mean else Inr 0) (\<lambda>ops.
           Inr \<lparr>bst_n = n, bst_mean = mean, bst_p50 = p50, bst_p95 = p95, bst_p99 = p99,
                bst_max = (if latencies \<noteq> [] then Max (set latencies) else 0), bst_ops_sec = ops\<rparr>))))))"

text \<open>\<open>_fmt\<close>; the micro sign is the character 0xB5.\<close>

definition fmt_us :: "rat \<Rightarrow> string" where
  "fmt_us v = (if 1000 \<le> v then fmt_fixed 2 (fl (v / 1000)) @ '' ms''
               else fmt_fixed 1 v @ '' '' @ [CHR 0xB5] @ ''s'')"

section \<open>Indices\<close>

lemma list_index_nth: "0 \<le> i \<Longrightarrow> i < int (length xs) \<Longrightarrow> list_index xs i = Inr (xs ! nat i)"
  by (simp add: list_index_def)

text \<open>
  The position \<open>(n - 1) * p / 100\<close>: below 2 to the 40 the rounding of the quotient does not cross
  a whole number and stays a little below the next one.
\<close>

lemma idx_bounds:
  assumes "0 \<le> k" "k < 2 ^ 40"
  defines "idx \<equiv> fl (of_int k / 100 :: rat)"
  shows "of_int (k div 100) \<le> idx" "idx \<le> of_int (k div 100) + (1 - 1 / 128)"
proof -
  have k: "(of_int k :: rat) < of_int (2 ^ 40)" using assms(2) by (simp only: of_int_less_iff)
  then have "\<bar>of_int k / 100 :: rat\<bar> < 2 powi 40" using assms(1) by simp
  from fl_error_bound [OF this] have e: "\<bar>of_int k / 100 - idx\<bar> \<le> 1 / 16384"
    unfolding idx_def by (simp add: power_int_minus divide_simps)
  have "is_double (of_int (k div 100))"
    using assms(1,2) by (intro is_double_of_int) (auto simp: pos_imp_zdiv_nonneg_iff abs_if)
  then have id: "fl (of_int (k div 100)) = of_int (k div 100)" by (rule fl_id)
  have "(of_int (100 * (k div 100)) :: rat) \<le> of_int k" by (simp only: of_int_le_iff)
  then have "(of_int (k div 100) :: rat) \<le> of_int k / 100" by (simp add: mult.commute)
  then show "of_int (k div 100) \<le> idx" unfolding idx_def using fl_mono id by metis
  have "k \<le> 100 * (k div 100) + 99" by presburger
  then have "(of_int k :: rat) \<le> of_int (100 * (k div 100) + 99)" by (simp only: of_int_le_iff)
  then have "(of_int k :: rat) / 100 \<le> of_int (k div 100) + 99 / 100" by simp
  then show "idx \<le> of_int (k div 100) + (1 - 1 / 128)" using e by linarith
qed

lemma idx_trunc:
  assumes "0 \<le> k" "k < 2 ^ 40"
  shows "py_trunc (fl (of_int k / 100)) = k div 100"
proof -
  have "\<lfloor>fl (of_int k / 100 :: rat)\<rfloor> = k div 100"
    using idx_bounds [OF assms] by (intro floor_unique) linarith+
  moreover have "0 \<le> fl (of_int k / 100 :: rat)" using assms(1) by (intro fl_nonneg) simp
  ultimately show ?thesis by (simp add: py_trunc_def)
qed

section \<open>Interpolation\<close>

definition lerp :: "rat \<Rightarrow> rat \<Rightarrow> rat \<Rightarrow> rat" where
  "lerp a b f = py_add a (py_mul (py_sub b a) f)"

lemma double_grid: "is_double a \<Longrightarrow> \<exists>n. a = of_int n * 2 powi (- 1074)"
proof -
  assume "is_double a"
  then obtain m e where "a = of_int m * 2 powi e" "- 1074 \<le> e" by (auto simp: is_double_def)
  moreover from this have "(2 :: rat) powi e = 2 ^ nat (e + 1074) * 2 powi (- 1074)"
    using powi_add [of "e + 1074" "- 1074"] by (simp add: power_int_def)
  ultimately have "a = of_int (m * 2 ^ nat (e + 1074)) * 2 powi (- 1074)" by simp
  then show ?thesis by blast
qed

lemma double_diff_small:
  assumes "is_double a" "is_double b" "fexp (b - a) = - 1074"
  shows "fl (b - a) = b - a"
proof -
  obtain m n where "a = of_int m * 2 powi (- 1074)" "b = of_int n * 2 powi (- 1074)"
    using double_grid assms(1,2) by blast
  then have "b - a = of_int (n - m) * 2 powi fexp (b - a)" using assms(3) by (simp add: left_diff_distrib)
  then have "\<bar>b - a - fl (b - a)\<bar> \<le> 0" using fl_multiple_nearest [of "b - a" "n - m"] by simp
  then show ?thesis by simp
qed

lemma scaled_diff_le:
  assumes "is_double a" "is_double b" "a \<le> b" "0 \<le> f" "f \<le> 1 - 1 / 128"
  shows "fl (fl (b - a) * f) \<le> b - a"
proof (cases "fl (b - a) \<le> b - a")
  case True
  have "fl (b - a) * f \<le> fl (b - a)" using assms(3-5) by (intro mult_left_le fl_nonneg) auto
  then have "fl (fl (b - a) * f) \<le> fl (b - a)" using fl_mono by fastforce
  then show ?thesis using True by simp
next
  case False
  let ?d = "b - a" and ?u = "(2 :: rat) powi fexp (b - a)"
  have d: "0 < ?d" using False assms(3) by (cases "a = b") auto
  have "fexp ?d \<noteq> - 1074" using False double_diff_small [OF assms(1,2)] by fastforce
  then have e: "fexp ?d = flog2 ?d - 52" using d by (auto simp: fexp_def max_def split: if_splits)
  have "2 powi flog2 ?d \<le> ?d" using d by (rule flog2_bounds)
  moreover have "(2 :: rat) powi flog2 ?d = 2 ^ 52 * ?u" using powi_add [of 52 "fexp ?d"] e by simp
  ultimately have u: "2 ^ 52 * ?u \<le> fl ?d" using False by linarith
  let ?m = "rne (?d / ?u)"
  have fd: "fl ?d = of_int ?m * ?u" using d by (simp add: fl_def)
  have "is_double (fl ?d - ?u)"
  proof -
    have "\<bar>?d / ?u\<bar> \<le> of_int (2 ^ 53)"
    proof -
      have "?d < 2 powi (flog2 ?d + 1)" using d by (rule flog2_bounds)
      also have "\<dots> = 2 ^ 53 * ?u" using powi_add [of 53 "fexp ?d"] e by (simp add: add.commute)
      finally show ?thesis using d by (simp add: pos_divide_le_eq)
    qed
    then have "\<bar>?m\<bar> \<le> 2 ^ 53" by (rule rne_le)
    moreover have "1 \<le> ?m"
    proof (rule ccontr)
      assume "\<not> 1 \<le> ?m"
      then have "(of_int ?m :: rat) \<le> 0" by simp
      then have "fl ?d \<le> 0" using fd by (simp add: mult_le_0_iff)
      then show False using False d by simp
    qed
    ultimately have "\<bar>?m - 1\<bar> \<le> 2 ^ 53" by linarith
    then have "is_double (of_int (?m - 1) * ?u)" by (intro is_doubleI) (auto simp: fexp_def)
    then show ?thesis using fd by (simp add: left_diff_distrib)
  qed
  then have r: "fl (fl ?d - ?u) = fl ?d - ?u" by (rule fl_id)
  have "fl ?d * f \<le> fl ?d * (1 - 1 / 128)" using assms(5) d by (intro mult_left_mono fl_nonneg) auto
  also have "\<dots> = fl ?d - fl ?d / 128" by (simp add: right_diff_distrib)
  also have "\<dots> \<le> fl ?d - ?u"
  proof -
    have "128 * ?u \<le> 2 ^ 52 * ?u" by (intro mult_right_mono) simp_all
    then have "128 * ?u \<le> fl ?d" using u by linarith
    then show ?thesis by simp
  qed
  finally have "fl (fl ?d * f) \<le> fl ?d - ?u" using fl_mono r by metis
  moreover have "fl ?d - ?u \<le> ?d" using fl_error [of ?d] powi_pos [of "fexp ?d"] by linarith
  ultimately show ?thesis by simp
qed

lemma lerp_bounds:
  assumes "is_double a" "is_double b" "a \<le> b" "0 \<le> f" "f \<le> 1 - 1 / 128"
  shows "a \<le> lerp a b f" "lerp a b f \<le> b"
proof -
  have "0 \<le> fl (fl (b - a) * f)" using assms(3,4) by (intro fl_nonneg mult_nonneg_nonneg) auto
  then have "fl a \<le> fl (a + fl (fl (b - a) * f))" by (intro fl_mono) simp
  then show "a \<le> lerp a b f" by (simp add: lerp_def py_add_def py_mul_def py_sub_def fl_id assms(1))
  have "a + fl (fl (b - a) * f) \<le> b" using scaled_diff_le [OF assms] by simp
  then have "fl (a + fl (fl (b - a) * f)) \<le> fl b" by (rule fl_mono)
  then show "lerp a b f \<le> b" by (simp add: lerp_def py_add_def py_mul_def py_sub_def fl_id assms(2))
qed

lemma lerp_mono: "a \<le> b \<Longrightarrow> f \<le> g \<Longrightarrow> lerp a b f \<le> lerp a b g"
  unfolding lerp_def py_add_def py_mul_def py_sub_def
  by (intro fl_mono add_left_mono mult_left_mono fl_nonneg) auto

section \<open>Percentiles\<close>

text \<open>\<open>samples data\<close>: what the percentiles are computed of: doubles, at most 2 to the 32.\<close>

definition sized :: "rat list \<Rightarrow> bool" where
  "sized data \<longleftrightarrow> data \<noteq> [] \<and> length data \<le> 2 ^ 32"

definition samples :: "rat list \<Rightarrow> bool" where
  "samples data \<longleftrightarrow> data \<noteq> [] \<and> list_all is_double data \<and> length data \<le> 2 ^ 32"

abbreviation rank :: "rat list \<Rightarrow> int \<Rightarrow> int" where
  "rank data p \<equiv> (int (length data) - 1) * p"

definition frac :: "rat list \<Rightarrow> int \<Rightarrow> rat" where
  "frac data p = py_sub (fl (of_int (rank data p) / 100)) (of_int (rank data p div 100))"

lemma samples_sized: "samples data \<Longrightarrow> sized data"
  by (simp add: samples_def sized_def)

lemma rank_bounds:
  assumes "sized data" "0 \<le> p" "p \<le> 100"
  shows "0 \<le> rank data p" "rank data p < 2 ^ 40" "rank data p div 100 \<le> int (length data) - 1"
proof -
  have n: "1 \<le> int (length data)" "int (length data) \<le> 2 ^ 32"
    using assms(1) by (auto simp: sized_def Suc_le_eq simp flip: of_nat_le_iff)
  show "0 \<le> rank data p" using n(1) assms(2) by (intro mult_nonneg_nonneg) auto
  have r: "rank data p \<le> (int (length data) - 1) * 100" using n assms by (intro mult_left_mono) auto
  then show "rank data p < 2 ^ 40" using n by simp
  show "rank data p div 100 \<le> int (length data) - 1" using r by simp
qed

lemma frac_bounds:
  assumes "sized data" "0 \<le> p" "p \<le> 100"
  shows "0 \<le> frac data p" "frac data p \<le> 1 - 1 / 128"
proof -
  note b = idx_bounds [OF rank_bounds(1,2) [OF assms]]
  show "0 \<le> frac data p" unfolding frac_def py_sub_def using b by (intro fl_nonneg) simp
  have "is_double (of_int 127 * 2 powi (- 7))" by (rule is_doubleI) simp_all
  then have "fl (1 - 1 / 128) = 1 - 1 / 128" by (intro fl_id) (simp add: power_int_minus)
  then show "frac data p \<le> 1 - 1 / 128"
    unfolding frac_def py_sub_def
    using b(2) fl_mono [of "fl (of_int (rank data p) / 100) - of_int (rank data p div 100)" "1 - 1 / 128"] by linarith
qed

lemma bench_pct_lerp:
  assumes "sized data" "0 \<le> p" "p \<le> 100"
  defines "lo \<equiv> nat (rank data p div 100)"
  shows "bench_pct data p =
    Inr (lerp (sort data ! lo) (sort data ! min (lo + 1) (length data - 1)) (frac data p))"
    and "lo < length data"
proof -
  note r = rank_bounds [OF assms(1-3)]
  have ne: "data \<noteq> []" using assms(1) by (simp add: sized_def)
  have lo: "rank data p div 100 = int lo" using r(1) by (simp add: lo_def pos_imp_zdiv_nonneg_iff)
  then show less: "lo < length data" using r(3) by linarith
  have hi: "min (int lo + 1) (int (length data) - 1) = int (min (lo + 1) (length data - 1))"
    using ne by (cases data) auto
  have ix: "list_index (sort data) (int lo) = Inr (sort data ! lo)"
      "list_index (sort data) (int (min (lo + 1) (length data - 1))) =
         Inr (sort data ! min (lo + 1) (length data - 1))"
    using less by (subst list_index_nth; simp)+
  show "bench_pct data p =
      Inr (lerp (sort data ! lo) (sort data ! min (lo + 1) (length data - 1)) (frac data p))"
    unfolding bench_pct_def Let_def length_sort idx_trunc [OF r(1,2)] lo hi ix res_bind_simps
    using ne lo by (simp add: lerp_def frac_def)
qed

lemma bench_pct_total: "sized data \<Longrightarrow> 0 \<le> p \<Longrightarrow> p \<le> 100 \<Longrightarrow> \<exists>v. bench_pct data p = Inr v"
  using bench_pct_lerp(1) by blast

lemma sorted_doubles:
  assumes "samples data" "i \<le> j" "j < length data"
  shows "is_double (sort data ! i)" "sort data ! i \<le> sort data ! j"
proof -
  have "sort data ! i \<in> set data" using assms(2,3) by (metis length_sort nth_mem order_le_less_trans set_sort)
  then show "is_double (sort data ! i)" using assms(1) by (auto simp: samples_def list_all_iff)
  show "sort data ! i \<le> sort data ! j" using assms(2,3) by (intro sorted_nth_mono) auto
qed

lemma pct_between:
  assumes "samples data" "0 \<le> p" "p \<le> 100" "bench_pct data p = Inr v"
  shows "sort data ! nat (rank data p div 100) \<le> v"
    and "v \<le> sort data ! min (nat (rank data p div 100) + 1) (length data - 1)"
proof -
  let ?lo = "nat (rank data p div 100)" and ?hi = "min (nat (rank data p div 100) + 1) (length data - 1)"
  note l = bench_pct_lerp [OF samples_sized [OF assms(1)] assms(2,3)]
  then have v: "v = lerp (sort data ! ?lo) (sort data ! ?hi) (frac data p)" using assms(4) by simp
  have ix: "?lo \<le> ?hi" "?hi < length data" using l(2) by (auto simp: min_def)
  have d: "is_double (sort data ! ?lo)" "is_double (sort data ! ?hi)" "sort data ! ?lo \<le> sort data ! ?hi"
    using sorted_doubles [OF assms(1)] ix by auto
  show "sort data ! ?lo \<le> v" "v \<le> sort data ! ?hi"
    unfolding v by (fact lerp_bounds [OF d frac_bounds [OF samples_sized [OF assms(1)] assms(2,3)]])+
qed

lemma pct_mono:
  assumes "samples data" "0 \<le> p" "p \<le> q" "q \<le> 100"
    and "bench_pct data p = Inr v" "bench_pct data q = Inr w"
  shows "v \<le> w"
proof -
  let ?lo = "\<lambda>p. nat (rank data p div 100)"
  have p: "p \<le> 100" and q: "0 \<le> q" using assms(2-4) by auto
  have r: "rank data p \<le> rank data q"
    using assms(1,3) by (intro mult_left_mono) (auto simp: samples_def Suc_le_eq)
  then have le: "?lo p \<le> ?lo q" by (intro nat_mono zdiv_mono1) auto
  note lp = bench_pct_lerp [OF samples_sized [OF assms(1)] assms(2) p] and lq = bench_pct_lerp [OF samples_sized [OF assms(1)] q assms(4)]
  show "v \<le> w"
  proof (cases "?lo p = ?lo q")
    case True
    then have "rank data p div 100 = rank data q div 100"
      using rank_bounds(1) [OF samples_sized [OF assms(1)] assms(2) p] rank_bounds(1) [OF samples_sized [OF assms(1)] q assms(4)]
      by (simp add: eq_nat_nat_iff pos_imp_zdiv_nonneg_iff)
    moreover have "(of_int (rank data p) :: rat) \<le> of_int (rank data q)" using r by (simp only: of_int_le_iff)
    ultimately have "frac data p \<le> frac data q"
      unfolding frac_def py_sub_def by (intro fl_mono diff_mono divide_right_mono) simp_all
    moreover have "sort data ! ?lo q \<le> sort data ! min (?lo q + 1) (length data - 1)"
      using lq(2) by (intro sorted_doubles(2) [OF assms(1)]) auto
    ultimately show ?thesis using lp(1) lq(1) assms(5,6) True by (auto intro: lerp_mono)
  next
    case False
    then have "min (?lo p + 1) (length data - 1) \<le> ?lo q" using le by linarith
    then have "sort data ! min (?lo p + 1) (length data - 1) \<le> sort data ! ?lo q"
      using lq(2) by (rule sorted_doubles(2) [OF assms(1)])
    then show ?thesis
      using pct_between(2) [OF assms(1,2) p assms(5)] pct_between(1) [OF assms(1) q assms(4,6)] by linarith
  qed
qed

definition py_mean :: "rat list \<Rightarrow> rat" where
  "py_mean xs = (if xs = [] then 0 else fl (py_sum xs / of_nat (length xs)))"

definition ops_per_sec :: "rat \<Rightarrow> rat" where
  "ops_per_sec mean = (if mean = 0 then 0 else fl (1000000 / mean))"

lemma py_mean_nonneg: "(\<And>x. x \<in> set xs \<Longrightarrow> 0 \<le> x) \<Longrightarrow> 0 \<le> py_mean xs"
proof -
  assume nonneg: "\<And>x. x \<in> set xs \<Longrightarrow> 0 \<le> x"
  have "0 \<le> foldl py_add a ys" if "0 \<le> a" "\<And>y. y \<in> set ys \<Longrightarrow> 0 \<le> y" for a ys
    using that
  proof (induction ys arbitrary: a)
    case (Cons y ys)
    have "0 \<le> py_add a y" using Cons.prems by (simp add: py_add_def fl_nonneg)
    then show ?case using Cons by simp
  qed simp
  then have "0 \<le> py_sum xs" using nonneg by (simp add: py_sum_def)
  then show ?thesis by (auto simp: py_mean_def intro!: fl_nonneg divide_nonneg_nonneg)
qed

lemma guarded_div:
  "(if xs \<noteq> [] then py_div (py_sum xs) (of_nat (length xs)) else Inr 0) = Inr (py_mean xs)"
  "(if m \<noteq> 0 then py_div 1000000 m else Inr 0) = Inr (ops_per_sec m)"
  by (simp_all add: py_div_def py_mean_def ops_per_sec_def)

lemma ops_per_sec_double: "is_double (ops_per_sec mean) \<and> (0 \<le> mean \<longrightarrow> 0 \<le> ops_per_sec mean)"
  using fl_double [of 0] by (auto simp: ops_per_sec_def fl_double intro!: fl_nonneg divide_nonneg_nonneg)

lemma compute_stats_ops: "compute_stats xs = Inr st \<Longrightarrow> bst_ops_sec st = ops_per_sec (py_mean xs)"
  by (auto simp: compute_stats_def Let_def guarded_div res_bind_Inr)

lemma compute_stats_shape:
  assumes "latencies \<noteq> []" "bench_pct latencies 50 = Inr a" "bench_pct latencies 95 = Inr b"
    "bench_pct latencies 99 = Inr c"
  shows "compute_stats latencies = Inr \<lparr>bst_n = length latencies, bst_mean = py_mean latencies,
    bst_p50 = a, bst_p95 = b, bst_p99 = c, bst_max = Max (set latencies),
    bst_ops_sec = ops_per_sec (py_mean latencies)\<rparr>"
  using assms by (simp only: compute_stats_def Let_def guarded_div res_bind_simps length_0_conv)
    (simp add: py_div_def py_mean_def)

text \<open>
  C9: The statistics are never out of order. For every non-empty list of doubles (at most
  2 to the 32), \<open>compute_stats\<close> returns, without an IndexError or ZeroDivisionError, and
  minimum \<open>\<le>\<close> p50 \<open>\<le>\<close> p95 \<open>\<le>\<close> p99 \<open>\<le>\<close> maximum holds although the interpolation is
  computed in rounded arithmetic.
\<close>

theorem compute_stats_ordered:
  assumes "samples latencies"
  shows "\<exists>st. compute_stats latencies = Inr st \<and> bst_n st = length latencies \<and>
    Min (set latencies) \<le> bst_p50 st \<and> bst_p50 st \<le> bst_p95 st \<and> bst_p95 st \<le> bst_p99 st \<and>
    bst_p99 st \<le> bst_max st \<and> bst_max st = Max (set latencies)"
proof -
  have ne: "latencies \<noteq> []" using assms by (simp add: samples_def)
  obtain a b c where abc: "bench_pct latencies 50 = Inr a" "bench_pct latencies 95 = Inr b"
      "bench_pct latencies 99 = Inr c"
    using bench_pct_total [OF samples_sized [OF assms], of 50] bench_pct_total [OF samples_sized [OF assms], of 95] bench_pct_total [OF samples_sized [OF assms], of 99]
    by auto
  have in_set: "sort latencies ! i \<in> set latencies" if "i < length latencies" for i
    using that by (metis length_sort nth_mem set_sort)
  have "Min (set latencies) \<le> sort latencies ! nat (rank latencies 50 div 100)"
    using bench_pct_lerp(2) [OF samples_sized [OF assms], of 50] in_set by (intro Min_le) auto
  also have "\<dots> \<le> a" by (rule pct_between(1) [OF assms _ _ abc(1)]) simp_all
  finally have lo: "Min (set latencies) \<le> a" .
  have "c \<le> sort latencies ! min (nat (rank latencies 99 div 100) + 1) (length latencies - 1)"
    by (rule pct_between(2) [OF assms _ _ abc(3)]) simp_all
  also have "\<dots> \<le> Max (set latencies)" using ne by (intro Max_ge in_set) (auto simp: min_def)
  finally have hi: "c \<le> Max (set latencies)" .
  have "a \<le> b" by (rule pct_mono [OF assms _ _ _ abc(1,2)]) simp_all
  moreover have "b \<le> c" by (rule pct_mono [OF assms _ _ _ abc(2,3)]) simp_all
  moreover note compute_stats_shape [OF ne abc]
  ultimately show ?thesis using lo hi by simp
qed

theorem compute_stats_ordered_witness:
  "\<exists>st. compute_stats [3, 1, 2] = Inr st \<and> 1 \<le> bst_p50 st \<and> bst_p50 st \<le> bst_p95 st \<and> bst_max st = 3"
proof -
  have "samples [3, 1, 2]"
    using is_double_of_int [of 3] is_double_of_int [of 1] is_double_of_int [of 2] by (simp add: samples_def)
  from compute_stats_ordered [OF this] show ?thesis by force
qed

section \<open>The histogram\<close>

definition BINS :: nat where
  "BINS = 8"

text \<open>The loop that counts the samples per bin, with the index error of a bad bin.\<close>

fun count_bins :: "rat \<Rightarrow> rat \<Rightarrow> rat list \<Rightarrow> nat list \<Rightarrow> nat list res" where
  "count_bins lo w [] counts = Inr counts"
| "count_bins lo w (v # vs) counts =
     res_bind (py_div (py_sub v lo) w) (\<lambda>q.
       let i = min (py_trunc q) (int BINS - 1)
       in res_bind (list_index counts i) (\<lambda>c.
            count_bins lo w vs (counts[nat (if i < 0 then i + int BINS else i) := c + 1])))"

text \<open>The bars: the two bounds of a bin, the length of its bar and its share in percent.\<close>

definition hist_row :: "rat \<Rightarrow> rat \<Rightarrow> nat \<Rightarrow> nat \<Rightarrow> nat \<times> nat \<Rightarrow> string \<times> string \<times> int \<times> rat" where
  "hist_row lo w n max_c ic =
     (case ic of (i, c) \<Rightarrow>
        (fmt_us (py_add lo (py_mul (of_nat i) w)), fmt_us (py_add lo (py_mul (of_nat (i + 1)) w)),
         if max_c \<noteq> 0 then py_trunc (py_mul (fl (of_nat c / of_nat max_c)) 32) else 0,
         py_mul (fl (of_nat c / of_nat n)) 100))"

definition histogram :: "rat list \<Rightarrow> (nat list \<times> (string \<times> string \<times> int \<times> rat) list) option res" where
  "histogram data =
     (if data = [] then Inr None
      else let lo = Min (set data); hi = Max (set data)
           in if lo = hi then Inr None
              else res_bind (py_div (py_sub hi lo) (of_nat BINS)) (\<lambda>w.
                   res_bind (count_bins lo w data (replicate BINS 0)) (\<lambda>counts.
                     Inr (Some (counts, map (hist_row lo w (length data) (Max (set counts)))
                                          (List.enumerate 0 counts))))))"

lemma sum_list_bump: "i < length cs \<Longrightarrow> sum_list (cs[i := cs ! i + 1]) = sum_list cs + (1 :: nat)"
  by (induction cs arbitrary: i) (auto split: nat.split)

lemma count_bins_total:
  assumes "0 < w" "\<And>v. v \<in> set vs \<Longrightarrow> lo \<le> v" "length counts = BINS"
  shows "\<exists>cs. count_bins lo w vs counts = Inr cs \<and> length cs = BINS \<and> sum_list cs = sum_list counts + length vs"
  using assms(2,3)
proof (induction vs arbitrary: counts)
  case (Cons v vs)
  let ?q = "fl (py_sub v lo / w)" and ?i = "min (py_trunc (fl (py_sub v lo / w))) (int BINS - 1)"
  have "0 \<le> ?q" using assms(1) Cons.prems(1) by (auto simp: py_sub_def intro!: fl_nonneg divide_nonneg_pos)
  then have i: "0 \<le> ?i" "?i < int BINS" by (auto simp: py_trunc_def BINS_def)
  then have nat_i: "nat ?i < length counts" using Cons.prems(2) by linarith
  have "count_bins lo w (v # vs) counts = count_bins lo w vs (counts[nat ?i := counts ! nat ?i + 1])"
  proof -
    have "list_index counts ?i = Inr (counts ! nat ?i)" using i Cons.prems(2) by (intro list_index_nth) simp_all
    moreover have "\<not> ?i < 0" "w \<noteq> 0" using i(1) assms(1) by linarith+
    ultimately show ?thesis by (simp only: count_bins.simps py_div_def res_bind_simps Let_def if_False)
  qed
  then show ?case
    using Cons.IH [of "counts[nat ?i := counts ! nat ?i + 1]"] Cons.prems sum_list_bump [OF nat_i] by auto
qed simp

text \<open>
  C37: The histogram loses no sample. When the samples differ by a positive width, the bins are
  computed without an index or division error, there are eight of them, and their counts add up
  to the number of samples; with no samples or equal ones nothing is drawn.
\<close>

theorem histogram_counts_all:
  assumes "fl (fl (Max (set data) - Min (set data)) / 8) \<noteq> 0 \<or> data = [] \<or> Min (set data) = Max (set data)"
  shows "case histogram data of
      Inl e \<Rightarrow> False
    | Inr None \<Rightarrow> data = [] \<or> Min (set data) = Max (set data)
    | Inr (Some (counts, rows)) \<Rightarrow>
        length counts = BINS \<and> length rows = BINS \<and> sum_list counts = length data"
proof (cases "data = [] \<or> Min (set data) = Max (set data)")
  case False
  let ?lo = "Min (set data)" and ?w = "fl (fl (Max (set data) - Min (set data)) / 8)"
  have "?lo \<le> Max (set data)" using False by (meson List.finite_set Max_ge Min_in set_empty)
  then have "0 \<le> ?w" by (intro fl_nonneg divide_nonneg_nonneg) auto
  then have w: "0 < ?w" using assms False by auto
  obtain cs where "count_bins ?lo ?w data (replicate BINS 0) = Inr cs" "length cs = BINS" "sum_list cs = length data"
    using count_bins_total [OF w, of data ?lo "replicate BINS 0"] by (auto simp: sum_list_replicate)
  then show ?thesis using False by (simp add: histogram_def py_div_def py_sub_def BINS_def Let_def)
qed (auto simp: histogram_def Let_def)

theorem histogram_counts_all_witness:
  "case histogram [1, 2, 9, 9] of Inr (Some (counts, _)) \<Rightarrow> sum_list counts = 4 | _ \<Rightarrow> False"
proof -
  have "fl (fl (Max (set [1, 2, 9, 9]) - Min (set [1, 2, 9, 9])) / 8) = 1" by code_simp
  then show ?thesis
    using histogram_counts_all [of "[1, 2, 9, 9]"] by (auto split: sum.splits option.splits)
qed

end
