(* ===== verification/BenchResults.thy ===== *)
theory BenchResults
  imports BenchStats
begin

text \<open>
  The result of a scenario in \<open>bench/bench.py\<close>: the samples and statistics \<open>main\<close> keeps for it,
  the internal track it picks, the cells of its row in the result table, the plain text table,
  and the data of the charts of one run.
\<close>

section \<open>Results\<close>

record scenario_result =
  sr_rtt :: "rat list"
  sr_rtt_stats :: bench_stats
  sr_int_stats :: bench_stats
  sr_queue_stats :: bench_stats
  sr_ack_total :: "rat list"
  sr_ack_queue :: "rat list"
  sr_cancel_total :: "rat list"
  sr_cancel_queue :: "rat list"
  sr_fill_total :: "rat list"
  sr_fill_queue :: "rat list"

type_synonym raw_stats = "(string, rat list) dict"

definition stats_get :: "raw_stats \<Rightarrow> string \<Rightarrow> rat list" where
  "stats_get raw k = (case map_of raw k of Some v \<Rightarrow> v | None \<Rightarrow> [])"

definition stats_item :: "raw_stats \<Rightarrow> string \<Rightarrow> rat list res" where
  "stats_item raw k = (case map_of raw k of Some v \<Rightarrow> Inr v | None \<Rightarrow> Inl KeyError)"

definition pick_tracks :: "raw_stats \<Rightarrow> (rat list \<times> rat list) res" where
  "pick_tracks raw =
     (if stats_get raw ''FILL_TOTAL_NS'' \<noteq> [] then
        res_bind (stats_item raw ''FILL_TOTAL_NS'') (\<lambda>a.
        res_bind (stats_item raw ''FILL_QUEUE_NS'') (\<lambda>b. Inr (a, b)))
      else if stats_get raw ''CANCEL_TOTAL_NS'' \<noteq> [] then
        res_bind (stats_item raw ''CANCEL_TOTAL_NS'') (\<lambda>a.
        res_bind (stats_item raw ''CANCEL_QUEUE_NS'') (\<lambda>b. Inr (a, b)))
      else Inr (stats_get raw ''ACK_TOTAL_NS'', stats_get raw ''ACK_QUEUE_NS''))"

definition make_result :: "rat list \<Rightarrow> raw_stats \<Rightarrow> scenario_result res" where
  "make_result latencies raw =
     res_bind (compute_stats latencies) (\<lambda>rtt_st.
     res_bind (pick_tracks raw) (\<lambda>(int_data, queue_data).
     res_bind (compute_stats int_data) (\<lambda>int_st.
     res_bind (compute_stats queue_data) (\<lambda>queue_st.
       Inr \<lparr>sr_rtt = latencies, sr_rtt_stats = rtt_st, sr_int_stats = int_st, sr_queue_stats = queue_st,
            sr_ack_total = stats_get raw ''ACK_TOTAL_NS'', sr_ack_queue = stats_get raw ''ACK_QUEUE_NS'',
            sr_cancel_total = stats_get raw ''CANCEL_TOTAL_NS'',
            sr_cancel_queue = stats_get raw ''CANCEL_QUEUE_NS'',
            sr_fill_total = stats_get raw ''FILL_TOTAL_NS'', sr_fill_queue = stats_get raw ''FILL_QUEUE_NS''\<rparr>))))"

text \<open>The cells of a row of \<open>_rich_table\<close>; \<open>None\<close> is the dash of a track without samples.\<close>

definition track_cell :: "bench_stats \<Rightarrow> rat \<Rightarrow> string option" where
  "track_cell st v = (if bst_n st \<noteq> 0 then Some (fmt_us v) else None)"

definition table_row :: "string \<times> scenario_result \<Rightarrow> string option list" where
  "table_row nr =
     (case nr of (name, r) \<Rightarrow>
        let rtt = sr_rtt_stats r; ist = sr_int_stats r; q = sr_queue_stats r
        in [Some name, Some (str_nat (bst_n rtt)), Some (fmt_us (bst_p50 rtt)), Some (fmt_us (bst_p99 rtt)),
            track_cell ist (bst_p50 ist), track_cell ist (bst_p99 ist), track_cell q (bst_p50 q),
            Some (fmt_commas (bst_ops_sec rtt))])"

text \<open>A row of \<open>_plain_table\<close>; \<open>dash\<close> is the one-character text of the dash.\<close>

definition plain_row :: "string \<Rightarrow> string \<times> scenario_result \<Rightarrow> string" where
  "plain_row dash nr =
     (case nr of (name, r) \<Rightarrow>
        let rtt = sr_rtt_stats r; ist = sr_int_stats r; q = sr_queue_stats r;
            cell = (\<lambda>st v. rjust 10 (if bst_n st \<noteq> 0 then fmt_us v else dash))
        in ljust 12 name @ '' '' @ rjust 6 (str_nat (bst_n rtt)) @ '' '' @ rjust 10 (fmt_us (bst_p50 rtt)) @ '' '' @
           rjust 10 (fmt_us (bst_p99 rtt)) @ '' '' @ cell ist (bst_p50 ist) @ '' '' @ cell ist (bst_p99 ist) @ '' '' @
           cell q (bst_p50 q) @ '' '' @ rjust 10 (fmt_commas (bst_ops_sec rtt)))"

definition plain_header :: string where
  "plain_header =
     ljust 12 ''scenario'' @ '' '' @ rjust 6 ''n'' @ '' '' @ rjust 10 ''rtt p50'' @ '' '' @ rjust 10 ''rtt p99'' @ '' '' @
     rjust 10 ''int p50'' @ '' '' @ rjust 10 ''int p99'' @ '' '' @ rjust 10 ''queue p50'' @ '' '' @ rjust 10 ''ops/sec''"

definition plain_table :: "string \<Rightarrow> (string, scenario_result) dict \<Rightarrow> string list" where
  "plain_table dash results =
     [[], plain_header, replicate (length plain_header) CHR ''-''] @ map (plain_row dash) results @ [[]]"

section \<open>What the charts are drawn from\<close>

text \<open>The curves of the latency chart: the sorted samples and the percentage reached at each.\<close>

definition cdf_curve :: "rat list \<Rightarrow> (rat \<times> rat) list" where
  "cdf_curve rtt =
     (let data = sort rtt
      in zip data (map (\<lambda>i. py_mul (fl (of_nat (i + 1) / of_nat (length data))) 100) [0..<length data]))"

definition cdf_curves :: "(string, scenario_result) dict \<Rightarrow> (string \<times> (rat \<times> rat) list) list" where
  "cdf_curves results =
     map (\<lambda>(name, r). (name, cdf_curve (sr_rtt r))) (filter (\<lambda>(name, r). sr_rtt r \<noteq> []) (take 4 results))"

definition throughput_bars :: "(string, scenario_result) dict \<Rightarrow> (string \<times> rat \<times> string) list" where
  "throughput_bars results =
     map (\<lambda>(name, r). (name, bst_ops_sec (sr_rtt_stats r), fmt_commas (bst_ops_sec (sr_rtt_stats r)))) results"

definition p50_bars :: "scenario_result \<Rightarrow> rat \<times> rat \<times> rat" where
  "p50_bars r =
     (bst_p50 (sr_rtt_stats r), if bst_n (sr_int_stats r) \<noteq> 0 then bst_p50 (sr_int_stats r) else 0,
      if bst_n (sr_queue_stats r) \<noteq> 0 then bst_p50 (sr_queue_stats r) else 0)"

text \<open>A curve has one point per sample, in the order of the samples, and ends at one hundred percent.\<close>

lemma cdf_curve_points:
  assumes "rtt \<noteq> []"
  shows "length (cdf_curve rtt) = length rtt" "sorted (map fst (cdf_curve rtt))"
    "last (cdf_curve rtt) = (last (sort rtt), 100)"
proof -
  show "length (cdf_curve rtt) = length rtt" by (simp add: cdf_curve_def Let_def)
  show "sorted (map fst (cdf_curve rtt))" by (simp add: cdf_curve_def Let_def)
  have one: "fl 1 = 1" "fl 100 = 100" using fl_id [OF is_double_of_int [of 1]] fl_id [OF is_double_of_int [of 100]] by simp_all
  have ne: "sort rtt \<noteq> []" using assms by (metis length_0_conv length_sort)
  let ?f = "\<lambda>i. py_mul (fl (of_nat (i + 1) / of_nat (length (sort rtt)))) 100"
  have "last (cdf_curve rtt) = (last (sort rtt), last (map ?f [0..<length (sort rtt)]))"
    unfolding cdf_curve_def Let_def using ne assms by (intro last_zip) simp_all
  moreover have "last (map ?f [0..<length (sort rtt)]) = 100"
    using assms by (simp add: last_map one py_mul_def of_nat_diff Suc_le_eq)
  ultimately show "last (cdf_curve rtt) = (last (sort rtt), 100)" by simp
qed

lemma compute_stats_total: "sized ls \<or> ls = [] \<Longrightarrow> \<exists>st. compute_stats ls = Inr st"
proof (elim disjE)
  assume s: "sized ls"
  obtain a b c where "bench_pct ls 50 = Inr a" "bench_pct ls 95 = Inr b" "bench_pct ls 99 = Inr c"
    using bench_pct_total [OF s, of 50] bench_pct_total [OF s, of 95] bench_pct_total [OF s, of 99] by auto
  then show ?thesis using compute_stats_shape [of ls a b c] s by (simp add: sized_def)
next
  assume "ls = []"
  then show ?thesis by (simp add: compute_stats_def bench_pct_def)
qed

lemma make_result_Inr:
  "make_result latencies raw = Inr r \<Longrightarrow> sr_rtt r = latencies \<and> compute_stats latencies = Inr (sr_rtt_stats r)"
  by (auto simp: make_result_def res_bind_Inr split: prod.splits)

end
