(* ===== verification/BenchMain.thy ===== *)
theory BenchMain
  imports BenchScenarios BenchResults
begin

text \<open>
  The driver of \<open>bench/bench.py\<close>: \<open>main\<close> runs the chosen scenarios, each on a claimed session,
  and reads the exchange's statistics after it. The state is the list of sessions the driver holds: a claim adds one,
  a release takes it back. \<open>peer name k\<close> answers the \<open>k\<close>-th admin command of a scenario (claim,
  reset, reset, statistics, release), \<open>net name\<close> is what the FIX port delivers to it, or the
  error of the connection. The progress lines it prints are
  not followed; the report and the charts at its end are in \<open>BenchCharts\<close>.
\<close>

section \<open>Running\<close>

type_synonym bench_peers = "string \<Rightarrow> nat \<Rightarrow> bench_peer"

text \<open>What happens on the session between logon and logout.\<close>

definition session_run ::
  "(nat \<Rightarrow> int) \<Rightarrow> (nat \<Rightarrow> string) \<Rightarrow> (nat \<Rightarrow> bench_peer) \<Rightarrow> scenario \<Rightarrow> int \<Rightarrow> string
     \<Rightarrow> (rat list \<times> raw_stats) bench_prog" where
  "session_run clock now peer fn count symbol =
     seq_bind (\<lambda>s. bench_logon clock (now (2 * bs_seq s + 1)) s) (\<lambda>_.
     seq_bind (lift_res (reset_stats (peer 1))) (\<lambda>_.
     seq_bind (fn (reset_stats (peer 2)) count symbol) (\<lambda>latencies.
     seq_bind (lift_res (fetch_stats (peer 3))) (\<lambda>raw.
     seq_bind (\<lambda>s. bench_logout clock (now (2 * bs_seq s + 1)) s) (\<lambda>_. ret (latencies, raw))))))"

definition claim_held :: "bench_peer \<Rightarrow> (string list, string) prog" where
  "claim_held peer held =
     (case bench_claim_session peer of
        Inl e \<Rightarrow> (Inl e, held)
      | Inr comp_id \<Rightarrow> (Inr comp_id, held @ [comp_id]))"

definition release_held :: "bench_peer \<Rightarrow> string \<Rightarrow> (string list, unit) prog" where
  "release_held peer comp_id held =
     (case bench_release_session peer comp_id of
        Inl e \<Rightarrow> (Inl e, held)
      | Inr _ \<Rightarrow> (Inr (), remove1 comp_id held))"

definition run_scenario ::
  "(nat \<Rightarrow> int) \<Rightarrow> (nat \<Rightarrow> string) \<Rightarrow> bench_peers \<Rightarrow> (string \<Rightarrow> net_event list res) \<Rightarrow> int
     \<Rightarrow> string \<times> scenario \<times> string \<Rightarrow> (string list, string \<times> scenario_result) prog" where
  "run_scenario clock now peer net count item =
     (case item of (name, fn, symbol) \<Rightarrow>
        seq_bind (claim_held (peer name 0)) (\<lambda>comp_id.
        seq_bind (lift_res (net name)) (\<lambda>evs.
        seq_bind (lift_res (fst (session_run clock now (peer name) fn count symbol (FixSession_init comp_id evs))))
          (\<lambda>(latencies, raw).
        seq_bind (release_held (peer name 4) comp_id) (\<lambda>_.
          lift_res (res_bind (make_result latencies raw) (\<lambda>r. Inr (name, r))))))))"

definition to_run ::
  "(string, scenario \<times> string) dict \<Rightarrow> string \<Rightarrow> (string \<times> scenario \<times> string) list res" where
  "to_run scenarios arg =
     (if arg = ''all'' then Inr scenarios
      else case map_of scenarios arg of
             None \<Rightarrow> Inl KeyError
           | Some v \<Rightarrow> Inr [(arg, v)])"

definition bench_main ::
  "(nat \<Rightarrow> int) \<Rightarrow> (nat \<Rightarrow> string) \<Rightarrow> bench_peers \<Rightarrow> (string \<Rightarrow> net_event list res) \<Rightarrow> bool
     \<Rightarrow> (nat \<Rightarrow> bool) \<Rightarrow> string \<Rightarrow> int \<Rightarrow> (string list, (string, scenario_result) dict) prog" where
  "bench_main clock now peer net no_spawn up arg count =
     seq_bind (lift_res (to_run (SCENARIOS clock now) arg)) (\<lambda>items.
     seq_bind (lift_res (if no_spawn then Inr () else start_exchange up)) (\<lambda>_.
     seq_bind (for_each (run_scenario clock now peer net count) items) (\<lambda>rs.
       ret (dict_of rs))))"

section \<open>What a run returns\<close>

lemma run_scenario_Inr:
  assumes "run_scenario clock now peer net count (name, fn, symbol) held = (Inr x, held')"
  shows "\<exists>c s raw s' r. bench_claim_session (peer name 0) = Inr c \<and>
     session_run clock now (peer name) fn count symbol s = (Inr (sr_rtt r, raw), s') \<and>
     held' = remove1 c (held @ [c]) \<and> x = (name, r) \<and> make_result (sr_rtt r) raw = Inr r"
proof -
  obtain c h1 where c: "claim_held (peer name 0) held = (Inr c, h1)"
    and rest: "seq_bind (lift_res (net name)) (\<lambda>evs.
        seq_bind (lift_res (fst (session_run clock now (peer name) fn count symbol (FixSession_init c evs))))
          (\<lambda>(latencies, raw). seq_bind (release_held (peer name 4) c) (\<lambda>_.
          lift_res (res_bind (make_result latencies raw) (\<lambda>r. Inr (name, r)))))) h1 = (Inr x, held')"
    using assms unfolding run_scenario_def prod.case seq_bind_Inr by blast
  then obtain s ls raw where s: "fst (session_run clock now (peer name) fn count symbol s) = Inr (ls, raw)"
    and rel: "seq_bind (release_held (peer name 4) c) (\<lambda>_.
          lift_res (res_bind (make_result ls raw) (\<lambda>r. Inr (name, r)))) h1 = (Inr x, held')"
    by (auto simp: seq_bind_Inr)
  then obtain h2 r where h2: "release_held (peer name 4) c h1 = (Inr (), h2)"
    and r: "make_result ls raw = Inr r" "x = (name, r)" "held' = h2"
    by (auto simp: seq_bind_Inr res_bind_Inr)
  have "bench_claim_session (peer name 0) = Inr c \<and> h1 = held @ [c]"
    using c by (auto simp: claim_held_def split: sum.splits)
  moreover have "h2 = remove1 c h1" using h2 by (auto simp: release_held_def split: sum.splits)
  moreover have "sr_rtt r = ls" using make_result_Inr [OF r(1)] by simp
  moreover obtain s' where "session_run clock now (peer name) fn count symbol s = (Inr (ls, raw), s')"
    using s by (metis prod.collapse)
  ultimately show ?thesis using r by blast
qed

lemma session_run_Inr:
  "session_run clock now peer fn count symbol s = (Inr (ls, raw), s') \<Longrightarrow>
   \<exists>u v. fn (reset_stats (peer 2)) count symbol u = (Inr ls, v)"
  by (auto simp: session_run_def seq_bind_Inr)

lemma run_scenario_item:
  assumes "run_scenario clock now peer net count item u = (Inr y, v)"
  shows "u = [] \<Longrightarrow> v = []" "fst y = fst item"
    "compute_stats (sr_rtt (snd y)) = Inr (sr_rtt_stats (snd y))"
    "\<exists>a b r. fst (snd item) r count (snd (snd item)) a = (Inr (sr_rtt (snd y)), b)"
proof -
  obtain name fn symbol where item: "item = (name, fn, symbol)" by (cases item)
  obtain c s raw s' r where h: "session_run clock now (peer name) fn count symbol s = (Inr (sr_rtt r, raw), s')"
      "v = remove1 c (u @ [c])" "y = (name, r)" "make_result (sr_rtt r) raw = Inr r"
    using run_scenario_Inr [OF assms [unfolded item]] by blast
  show "u = [] \<Longrightarrow> v = []" "fst y = fst item" using h item by simp_all
  show "compute_stats (sr_rtt (snd y)) = Inr (sr_rtt_stats (snd y))" using make_result_Inr [OF h(4)] h(3) by simp
  show "\<exists>a b r. fst (snd item) r count (snd (snd item)) a = (Inr (sr_rtt (snd y)), b)"
    using session_run_Inr [OF h(1)] h(3) item by auto
qed

text \<open>The number of latencies a scenario records.\<close>

definition expected_count :: "int \<Rightarrow> string \<Rightarrow> nat" where
  "expected_count count name = (if name = ''mixed'' then nat (max (count div 2) 1) else nat count)"

lemma recordsD:
  "records clock n m p \<Longrightarrow> p a = (Inr ls, b) \<Longrightarrow> length ls = n \<and> list_all (\<lambda>l. mono clock \<longrightarrow> 0 \<le> l) ls"
  by (auto simp only: records_def list_all_iff)

lemma SCENARIOS_records:
  assumes "(name, fn, symbol) \<in> set (SCENARIOS clock now)" "fn r count sy a = (Inr ls, b)"
  shows "length ls = expected_count count name \<and> list_all (\<lambda>l. mono clock \<longrightarrow> 0 \<le> l) ls"
proof -
  consider "name = ''add''" "fn = scenario_add clock now" | "name = ''cancel''" "fn = scenario_cancel clock now"
    | "name = ''match''" "fn = scenario_match clock now" | "name = ''mixed''" "fn = scenario_mixed clock now"
    using assms(1) by (auto simp: SCENARIOS_def)
  then show ?thesis
    using scenario_counts [of clock count now r sy, THEN conjunct1, THEN recordsD]
      scenario_counts [of clock count now r sy, THEN conjunct2, THEN conjunct1, THEN recordsD]
      scenario_counts [of clock count now r sy, THEN conjunct2, THEN conjunct2, THEN conjunct1, THEN recordsD]
      scenario_counts [of clock count now r sy, THEN conjunct2, THEN conjunct2, THEN conjunct2, THEN recordsD]
      assms(2) by cases (simp_all add: expected_count_def)
qed

lemma bench_main_facts:
  assumes "bench_main clock now peer net no_spawn up arg count [] = (Inr results, held)"
  shows "held = [] \<and>
    Inr (map fst results) = res_bind (to_run (SCENARIOS clock now) arg) (\<lambda>items. Inr (map fst items)) \<and>
    list_all (\<lambda>(name, r). length (sr_rtt r) = expected_count count name \<and>
      compute_stats (sr_rtt r) = Inr (sr_rtt_stats r) \<and> list_all (\<lambda>l. mono clock \<longrightarrow> 0 \<le> l) (sr_rtt r)) results"
proof -
  obtain items rs where items: "to_run (SCENARIOS clock now) arg = Inr items"
    and run: "for_each (run_scenario clock now peer net count) items [] = (Inr rs, held)"
    and res: "results = dict_of rs"
    using assms by (auto simp: bench_main_def seq_bind_Inr)
  have sub: "set items \<subseteq> set (SCENARIOS clock now)" "distinct (map fst items)"
    using items by (auto simp: to_run_def SCENARIOS_def split: if_splits option.splits dest: map_of_SomeD)
  have held: "held = []"
    by (rule for_each_kept [OF run, of "\<lambda>h. h = []"]) (auto dest: run_scenario_item(1))
  define Q where "Q = (\<lambda>(item :: string \<times> scenario \<times> string) (y :: string \<times> scenario_result).
     fst y = fst item \<and> compute_stats (sr_rtt (snd y)) = Inr (sr_rtt_stats (snd y)) \<and>
     (\<exists>a b r. fst (snd item) r count (snd (snd item)) a = (Inr (sr_rtt (snd y)), b)))"
  have all: "list_all2 Q items rs"
    by (rule for_each_results [OF run]) (auto simp: Q_def dest: run_scenario_item)
  have keys: "map fst rs = map fst items"
    using all by (induction items rs rule: list_all2_induct) (auto simp: Q_def)
  then have rs: "results = rs" using res sub(2) by (simp add: dict_of_distinct_eq)
  have "length (sr_rtt (snd y)) = expected_count count (fst y) \<and> compute_stats (sr_rtt (snd y)) = Inr (sr_rtt_stats (snd y)) \<and>
      list_all (\<lambda>l. mono clock \<longrightarrow> 0 \<le> l) (sr_rtt (snd y))"
    if y: "y \<in> set rs" for y
  proof -
    obtain i where i: "i < length rs" "y = rs ! i" using y by (auto simp: in_set_conv_nth)
    then have q: "Q (items ! i) y" "items ! i \<in> set (SCENARIOS clock now)"
      using all sub(1) by (auto simp: list_all2_conv_all_nth)
    then show ?thesis using SCENARIOS_records [of "fst y"] by (cases "items ! i") (auto simp: Q_def)
  qed
  then show ?thesis using held keys items by (auto simp: rs list_all_iff)
qed

text \<open>
  C12: A benchmark that completes leaves nothing behind and reports what was measured: every
  claimed session is released again, the results come in the order of the chosen scenarios, each
  with as many round-trip samples as the scenario measures, and the reported round-trip
  statistics are those of exactly these samples.
\<close>

theorem bench_main_results:
  assumes "bench_main clock now peer net no_spawn up arg count [] = (Inr results, held)"
  shows "held = [] \<and>
    Inr (map fst results) = res_bind (to_run (SCENARIOS clock now) arg) (\<lambda>items. Inr (map fst items)) \<and>
    list_all (\<lambda>(name, r). length (sr_rtt r) = expected_count count name \<and>
      compute_stats (sr_rtt r) = Inr (sr_rtt_stats r)) results"
  using bench_main_facts [OF assms] by (auto simp: list_all_iff)

section \<open>Runs against a responsive exchange\<close>

lemma logon_completes:
  assumes "list_all is_ascii ts" "list_all is_ascii (bs_sender s)" "bs_buf s = []"
    and "framed m" "map_of (bench_parse m) ''35'' = Some ''A''" "bs_net s = Chunk m # Expire # net"
  shows "\<exists>s'. bench_logon clock ts s = (Inr (), s') \<and> bs_buf s' = [] \<and> bs_net s' = net \<and> bs_sender s' = bs_sender s"
proof -
  have flds: "ascii_fields [(''98'', ''0''), (''108'', ''30'')]" "list_all is_ascii ''A''"
    by (simp_all add: ascii_fields_def is_ascii_def)
  obtain o' where u: "bench_send ts ''A'' [(''98'', ''0''), (''108'', ''30'')] s =
      (Inr (), s\<lparr>bs_out := bs_out s @ [o'], bs_seq := bs_seq s + 1\<rparr>)" (is "_ = (_, ?u)")
    using bench_send_ascii [OF assms(1) flds(2) assms(2) flds(1)] by blast
  have r: "bench_recv clock ?u = (Inr (bench_parse m), ?u\<lparr>bs_net := Expire # net, bs_ticks := bs_ticks ?u + 1\<rparr>)"
    using assms by (intro bench_recv_framed) simp_all
  have d: "bench_drain clock (?u\<lparr>bs_net := Expire # net, bs_ticks := bs_ticks ?u + 1\<rparr>) =
      (Inr (), ?u\<lparr>bs_net := Expire # net, bs_ticks := bs_ticks ?u + 1\<rparr>\<lparr>bs_net := net\<rparr>)"
    using assms(3) by (intro bench_drain_expire) simp_all
  have "bench_logon clock ts s = (Inr (), ?u\<lparr>bs_net := Expire # net, bs_ticks := bs_ticks ?u + 1\<rparr>\<lparr>bs_net := net\<rparr>)"
    unfolding bench_logon_def seq_bind_def 
    by (simp only: u r d assms(5) prod.case sum.case simp_thms not_True_eq_False if_False)
  then show ?thesis using assms(3) by simp
qed

lemma logout_completes:
  assumes "list_all is_ascii ts" "list_all is_ascii (bs_sender s)" "bs_buf s = []"
    and "framed m" "bs_net s = Chunk m # net"
  shows "\<exists>s'. bench_logout clock ts s = (Inr (), s')"
proof -
  have flds: "ascii_fields [(''58'', ''done'')]" "list_all is_ascii ''5''"
    by (simp_all add: ascii_fields_def is_ascii_def)
  obtain o' where u: "bench_send ts ''5'' [(''58'', ''done'')] s =
      (Inr (), s\<lparr>bs_out := bs_out s @ [o'], bs_seq := bs_seq s + 1\<rparr>)" (is "_ = (_, ?u)")
    using bench_send_ascii [OF assms(1) flds(2) assms(2) flds(1)] by blast
  have "bench_recv clock ?u = (Inr (bench_parse m), ?u\<lparr>bs_net := net, bs_ticks := bs_ticks ?u + 1\<rparr>)"
    using assms by (intro bench_recv_framed) simp_all
  then show ?thesis unfolding bench_logout_def seq_bind_def by (simp add: u)
qed

lemma session_run_completes:
  assumes "\<And>n. list_all is_ascii (now n)" "list_all is_ascii comp_id"
    and "framed hello" "map_of (bench_parse hello) ''35'' = Some ''A''" "framed bye"
    and "completes ms (fn (Inr ()) count symbol)"
    and "reset_stats (peer 1) = Inr ()" "reset_stats (peer 2) = Inr ()" "fetch_stats (peer 3) = Inr raw"
  shows "\<exists>ls s'. session_run clock now peer fn count symbol
      (FixSession_init comp_id (Chunk hello # Expire # map Chunk ms @ Chunk bye # net)) = (Inr (ls, raw), s')"
proof -
  let ?s = "FixSession_init comp_id (Chunk hello # Expire # map Chunk ms @ Chunk bye # net)"
  obtain u where u: "(\<lambda>s. bench_logon clock (now (2 * bs_seq s + 1)) s) ?s = (Inr (), u)"
      "bs_buf u = []" "bs_net u = map Chunk ms @ Chunk bye # net" "bs_sender u = comp_id"
    using logon_completes [OF assms(1), of ?s hello "map Chunk ms @ Chunk bye # net" clock] assms(2-4)
    by (auto simp: FixSession_init_def)
  obtain ls v where v: "fn (Inr ()) count symbol u = (Inr ls, v)" "bs_buf v = []" "bs_net v = Chunk bye # net"
      "bs_sender v = comp_id"
    using assms(6) [unfolded completes_def, rule_format, of u "Chunk bye # net"] u assms(2) by auto
  obtain w where w: "(\<lambda>s. bench_logout clock (now (2 * bs_seq s + 1)) s) v = (Inr (), w)"
    using logout_completes [OF assms(1), of v bye net clock] v assms(2,5) by auto
  have "session_run clock now peer fn count symbol ?s = (Inr (ls, raw), w)"
    unfolding session_run_def seq_bind_def
    by (simp only: u(1) v(1) w assms(7-9) prog_basic prod.case sum.case)
  then show ?thesis by blast
qed

lemma run_scenario_held:
  assumes "bench_claim_session (peer name 0) = Inr c" "net name = Inr evs"
  shows "run_scenario clock now peer net count (name, fn, symbol) held =
    (case fst (session_run clock now (peer name) fn count symbol (FixSession_init c evs)) of
       Inl e \<Rightarrow> (Inl e, held @ [c])
     | Inr (latencies, raw) \<Rightarrow>
         (case bench_release_session (peer name 4) c of
            Inl e \<Rightarrow> (Inl e, held @ [c])
          | Inr _ \<Rightarrow> (res_bind (make_result latencies raw) (\<lambda>r. Inr (name, r)), remove1 c (held @ [c]))))"
  unfolding run_scenario_def seq_bind_def
  by (simp add: assms claim_held_def release_held_def split: sum.splits prod.splits)

text \<open>
  C38: A scenario that raises keeps its session: when the session was claimed and the run between
  logon and logout raises, for any reason, the driver still holds the session when the exception
  leaves \<open>main\<close>; nothing releases it.
\<close>

theorem run_scenario_keeps_claim:
  assumes "bench_claim_session (peer name 0) = Inr c" "net name = Inr evs"
    and "fst (session_run clock now (peer name) fn count symbol (FixSession_init c evs)) = Inl e"
  shows "run_scenario clock now peer net count (name, fn, symbol) held = (Inl e, held @ [c])"
  using run_scenario_held [of peer name c net evs clock now count fn symbol held] assms by simp

definition example_peer :: "string \<Rightarrow> bench_peer" where
  "example_peer answer req = Inr [Chunk (answer @ [CHR 0x0A])]"

definition example_peers :: bench_peers where
  "example_peers name k = example_peer ([''OK S1'', ''OK'', ''OK'', ''END'', ''OK''] ! k)"

lemma example_peers_ok:
  "bench_claim_session (example_peers name 0) = Inr ''S1''" "reset_stats (example_peers name 1) = Inr ()"
  "reset_stats (example_peers name 2) = Inr ()" "fetch_stats (example_peers name 3) = Inr []"
  "bench_release_session (example_peers name 4) ''S1'' = Inr ()"
  unfolding example_peers_def by code_simp+

theorem run_scenario_keeps_claim_witness:
  "run_scenario (\<lambda>k. int k) (\<lambda>n. ''20260101-00:00:00'') example_peers (\<lambda>name. Inr []) 1
     (''add'', scenario_add (\<lambda>k. int k) (\<lambda>n. ''20260101-00:00:00''), ''AAPL'') [] = (Inl ConnectionError, [''S1''])"
proof -
  have "fst (bench_logon (\<lambda>k. int k) ''20260101-00:00:00'' (FixSession_init ''S1'' [])) = Inl ConnectionError"
    by code_simp
  then have "fst (session_run (\<lambda>k. int k) (\<lambda>n. ''20260101-00:00:00'') (example_peers ''add'')
     (scenario_add (\<lambda>k. int k) (\<lambda>n. ''20260101-00:00:00'')) 1 ''AAPL'' (FixSession_init ''S1'' [])) = Inl ConnectionError"
    by (cases "bench_logon (\<lambda>k. int k) ''20260101-00:00:00'' (FixSession_init ''S1'' [])")
       (simp add: session_run_def seq_bind_def FixSession_init_def)
  then show ?thesis
    using run_scenario_keeps_claim [of example_peers "''add''" "''S1''" "\<lambda>name. Inr []" "[]"] example_peers_ok(1)
    by simp
qed

lemma run_scenario_finishes:
  assumes "\<And>n. list_all is_ascii (now n)" "list_all is_ascii c"
    and "framed hello" "map_of (bench_parse hello) ''35'' = Some ''A''" "framed bye"
    and "completes ms (fn (Inr ()) count symbol)" "\<And>r. records clock n m (fn r count symbol)" "n \<le> 2 ^ 32"
    and "bench_claim_session (peer name 0) = Inr c" "reset_stats (peer name 1) = Inr ()"
    and "reset_stats (peer name 2) = Inr ()" "fetch_stats (peer name 3) = Inr raw"
    and "bench_release_session (peer name 4) c = Inr ()"
    and "pick_tracks raw = Inr (ti, tq)" "sized ti \<or> ti = []" "sized tq \<or> tq = []"
    and "net name = Inr (Chunk hello # Expire # map Chunk ms @ Chunk bye # rest)"
  shows "\<exists>r. run_scenario clock now peer net count (name, fn, symbol) [] = (Inr (name, r), []) \<and>
    length (sr_rtt r) = n \<and> make_result (sr_rtt r) raw = Inr r"
proof -
  obtain ls s' where run: "session_run clock now (peer name) fn count symbol
      (FixSession_init c (Chunk hello # Expire # map Chunk ms @ Chunk bye # rest)) = (Inr (ls, raw), s')"
    using session_run_completes [of now c hello bye ms fn count symbol "peer name" raw, OF assms(1-6,10-12)] by blast
  then obtain r u v where "fn r count symbol u = (Inr ls, v)" using session_run_Inr by blast
  then have ls: "length ls = n" "list_all is_double ls"
    using assms(7) [of r] unfolding records_def list_all_iff by blast+
  then have sls: "sized ls \<or> ls = []" using assms(8) by (auto simp: sized_def)
  obtain a b d where "compute_stats ls = Inr a" "compute_stats ti = Inr b" "compute_stats tq = Inr d"
    using compute_stats_total [OF sls] compute_stats_total [OF assms(15)] compute_stats_total [OF assms(16)] by auto
  then obtain r where "make_result ls raw = Inr r" "sr_rtt r = ls" using assms(14) by (simp add: make_result_def)
  then show ?thesis
    using run_scenario_held [of peer name c net _ clock now count fn symbol "[]", OF assms(9,17)] run ls(1) assms(13)
    by simp
qed

text \<open>The \<open>add\<close> scenario with one measured order against an exchange that answers at once.\<close>

definition example_now :: "nat \<Rightarrow> string" where
  "example_now n = ''20260101-00:00:00''"

definition example_net :: "string \<Rightarrow> net_event list res" where
  "example_net name = Inr (Chunk (frame_text [(''35'', ''A'')]) # Expire #
     map Chunk (concat (map (\<lambda>_. [example_exec ''0'']) (py_range 50)) @ [example_exec ''0'']) @
     Chunk (frame_text [(''35'', ''5'')]) # [])"

lemma example_ascii:
  "\<And>n. list_all is_ascii (example_now n)" "list_all is_ascii ''AAPL''" "list_all is_ascii ''S1''"
  by (simp_all add: example_now_def is_ascii_def)

lemma example_frames:
  "framed (frame_text [(''35'', ''A'')])" "map_of (bench_parse (frame_text [(''35'', ''A'')])) ''35'' = Some ''A''"
  "framed (frame_text [(''35'', ''5'')])"
  by code_simp+

lemma example_warmup: "warmup_count 1 = 50"
  by code_simp

lemma example_add:
  "completes (concat (map (\<lambda>_. [example_exec ''0'']) (py_range 50)) @ [example_exec ''0''])
     (scenario_add (\<lambda>k. int k) example_now (Inr ()) 1 ''AAPL'')"
proof -
  have rest: "py_range 50 = py_range (warmup_count 1)" "[0] = py_range (max (1 div 2) 1)"
    by (simp_all add: example_warmup)
  have fills: "answers (is_fill_of (''WU-MBUY-'' @ str_nat i)) [fill_frame (''WU-MBUY-'' @ str_nat i)]"
    "answers (is_fill_of (''MBUY-'' @ str_nat i)) [fill_frame (''MBUY-'' @ str_nat i)]" for i
    by (rule fill_frames; blast)+
  show ?thesis
    using scenarios_finish [OF example_ascii(1,2) example_exec_answers(1,1,2,2) fills rest, of "\<lambda>k. int k"] by simp
qed

lemma example_records: "records (\<lambda>k. int k) 1 51 (scenario_add (\<lambda>k. int k) example_now r 1 ''AAPL'')"
proof -
  have "records (\<lambda>k. int k) (nat 1) (nat (warmup_count 1) + nat 1) (scenario_add (\<lambda>k. int k) example_now r 1 ''AAPL'')"
    using scenario_counts [of "\<lambda>k. int k" 1 example_now r "''AAPL''"] by blast
  then show ?thesis by (simp add: example_warmup)
qed

lemma example_run:
  "\<exists>r. run_scenario (\<lambda>k. int k) example_now example_peers example_net 1
     (''add'', scenario_add (\<lambda>k. int k) example_now, ''AAPL'') [] = (Inr (''add'', r), []) \<and>
     length (sr_rtt r) = 1 \<and> make_result (sr_rtt r) [] = Inr r"
  by (rule run_scenario_finishes [where peer = example_peers and net = example_net and name = "''add''"
        and fn = "scenario_add (\<lambda>k. int k) example_now" and now = example_now and ti = "[]" and tq = "[]"
        and rest = "[]", OF example_ascii(1,3) example_frames example_add example_records _ example_peers_ok])
     (simp_all add: pick_tracks_def stats_get_def example_net_def)

text \<open>
  Against a responsive exchange a scenario of the benchmark completes. If the session is
  claimed, the logon is answered, the scenario gets its answers, the admin port answers every
  command and the statistics carry their queue track beside the total track, then the run ends
  with a result of all its samples and the session is released.
\<close>

theorem run_scenario_completes:
  assumes "\<And>n. list_all is_ascii (now n)" "list_all is_ascii c"
    and "framed hello" "map_of (bench_parse hello) ''35'' = Some ''A''" "framed bye"
    and "completes ms (fn (Inr ()) count symbol)" "\<And>r. records clock n m (fn r count symbol)" "n \<le> 2 ^ 32"
    and "bench_claim_session (peer name 0) = Inr c" "reset_stats (peer name 1) = Inr ()"
    and "reset_stats (peer name 2) = Inr ()" "fetch_stats (peer name 3) = Inr raw"
    and "bench_release_session (peer name 4) c = Inr ()"
    and "pick_tracks raw = Inr (ti, tq)" "sized ti \<or> ti = []" "sized tq \<or> tq = []"
    and "net name = Inr (Chunk hello # Expire # map Chunk ms @ Chunk bye # rest)"
  shows "\<exists>r. run_scenario clock now peer net count (name, fn, symbol) [] = (Inr (name, r), []) \<and> length (sr_rtt r) = n"
  using run_scenario_finishes [where now = now and c = c and hello = hello and bye = bye and ms = ms and fn = fn
      and count = count and symbol = symbol and clock = clock and n = n and m = m and peer = peer and name = name
      and raw = raw and ti = ti and tq = tq and net = net and rest = rest, OF assms] by blast

theorem run_scenario_completes_witness:
  "\<exists>r. run_scenario (\<lambda>k. int k) example_now example_peers example_net 1
     (''add'', scenario_add (\<lambda>k. int k) example_now, ''AAPL'') [] = (Inr (''add'', r), []) \<and> length (sr_rtt r) = 1"
  by (rule run_scenario_completes [where peer = example_peers and net = example_net and name = "''add''"
        and fn = "scenario_add (\<lambda>k. int k) example_now" and now = example_now and ti = "[]" and tq = "[]"
        and rest = "[]", OF example_ascii(1,3) example_frames example_add example_records _ example_peers_ok])
     (simp_all add: pick_tracks_def stats_get_def example_net_def)

theorem bench_main_results_witness:
  "\<exists>results. bench_main (\<lambda>k. int k) example_now example_peers example_net True (\<lambda>k. False) ''add'' 1 [] = (Inr results, []) \<and>
     map fst results = [''add''] \<and> (\<forall>(name, r) \<in> set results. length (sr_rtt r) = 1)"
proof -
  have items: "to_run (SCENARIOS (\<lambda>k. int k) example_now) ''add'' =
      Inr [(''add'', scenario_add (\<lambda>k. int k) example_now, ''AAPL'')]"
    by (simp add: to_run_def SCENARIOS_def)
  obtain r where r: "run_scenario (\<lambda>k. int k) example_now example_peers example_net 1
     (''add'', scenario_add (\<lambda>k. int k) example_now, ''AAPL'') [] = (Inr (''add'', r), [])"
    using example_run by blast
  have "bench_main (\<lambda>k. int k) example_now example_peers example_net True (\<lambda>k. False) ''add'' 1 [] =
      (Inr (dict_of [(''add'', r)]), [])"
    unfolding bench_main_def seq_bind_def by (simp add: items r seq_bind_def)
  from this bench_main_results [OF this] show ?thesis
    by (auto simp: items expected_count_def list_all_iff)
qed

end
