(* ===== verification/PyArgs.thy ===== *)
theory PyArgs
  imports PyNum
begin

text \<open>
  The module \<open>argparse\<close> of the standard library as far as the programs use it: parsers whose
  arguments are all options with a long name, that store a text, an \<open>int\<close>, one of a list of choices
  or \<open>True\<close>, and the automatic \<open>-h\<close> and \<open>--help\<close>. A long name may be abbreviated, a value may follow
  as the next argument or after \<open>=\<close>, and a later option overrides an earlier one. Whatever the parser
  does not accept, and a request for help, ends the program with SystemExit.
\<close>

section \<open>Options\<close>

datatype opt_kind = OptStr | OptInt | OptChoice "string list" | OptFlag | OptHelp

datatype arg_val = AStr string | AInt int | AFlag bool

type_synonym opt_spec = "(string \<times> opt_kind) list"

definition with_help :: "opt_spec \<Rightarrow> opt_spec" where
  "with_help opts = (''-h'', OptHelp) # (''--help'', OptHelp) # opts"

text \<open>How the parser reads one argument, before it looks at what the options take.\<close>

datatype arg_class = Plain | Opt string opt_kind "string option" | Rejected

text \<open>\<open>^-\d+$|^-\d*\.\d+$\<close>\<close>

definition negative_number :: "string \<Rightarrow> bool" where
  "negative_number a \<longleftrightarrow>
     (case a of
        [] \<Rightarrow> False
      | c # cs \<Rightarrow> c = CHR ''-'' \<and>
          (let ds = (if cs \<noteq> [] \<and> last cs = CHR 0x0A then butlast cs else cs); r = dropWhile is_digit ds
           in ds \<noteq> [] \<and> (r = [] \<or> hd r = CHR ''.'' \<and> tl r \<noteq> [] \<and> list_all is_digit (tl r))))"

definition option_candidates :: "opt_spec \<Rightarrow> string \<Rightarrow> string \<Rightarrow> opt_spec" where
  "option_candidates opts a key =
     filter (\<lambda>(n, _). if prefix ''--'' a then prefix key n else n = take 2 a \<or> prefix a n) opts"

definition classify :: "opt_spec \<Rightarrow> string \<Rightarrow> arg_class" where
  "classify opts a =
     (if a = [] \<or> hd a \<noteq> CHR ''-'' then Plain
      else case map_of opts a of
        Some kind \<Rightarrow> Opt a kind None
      | None \<Rightarrow>
          if length a = 1 then Plain
          else if a = ''--'' then Rejected
          else (case partition_on CHR ''='' a of (key, sep, v) \<Rightarrow>
            let arg = (if sep = [] then None else Some v)
            in case (if sep = [] then None else map_of opts key) of
                 Some kind \<Rightarrow> Opt key kind arg
               | None \<Rightarrow>
                   (case option_candidates opts a key of
                      [(n, kind)] \<Rightarrow> Opt n kind (if prefix ''--'' a then arg else Some (drop 2 a))
                    | _ # _ # _ \<Rightarrow> Rejected
                    | [] \<Rightarrow> if negative_number a \<or> CHR '' '' \<in> set a then Plain else Rejected)))"

definition convert :: "opt_kind \<Rightarrow> string \<Rightarrow> arg_val res" where
  "convert kind v =
     (case kind of
        OptInt \<Rightarrow> (case py_int v of Inr i \<Rightarrow> Inr (AInt i) | Inl _ \<Rightarrow> Inl SystemExit)
      | OptChoice cs \<Rightarrow> if v \<in> set cs then Inr (AStr v) else Inl SystemExit
      | _ \<Rightarrow> Inr (AStr v))"

fun parse_opts :: "opt_spec \<Rightarrow> string list \<Rightarrow> (string, arg_val) dict \<Rightarrow> (string, arg_val) dict res" where
  "parse_opts opts [] acc = Inr acc"
| "parse_opts opts (a # rest) acc =
     (case classify opts a of
        Opt n kind arg \<Rightarrow>
          if kind = OptHelp then Inl SystemExit
          else if kind = OptFlag
          then (if arg = None then parse_opts opts rest (AList.update n (AFlag True) acc) else Inl SystemExit)
          else (case arg of
                  Some v \<Rightarrow> res_bind (convert kind v) (\<lambda>x. parse_opts opts rest (AList.update n x acc))
                | None \<Rightarrow>
                    (case rest of
                       [] \<Rightarrow> Inl SystemExit
                     | v # rest' \<Rightarrow>
                         if classify opts v = Plain
                         then res_bind (convert kind v) (\<lambda>x. parse_opts opts rest' (AList.update n x acc))
                         else Inl SystemExit))
      | _ \<Rightarrow> Inl SystemExit)"

text \<open>\<open>parse_args\<close>: what was given, in the order of first mention; the rest keeps its default.\<close>

definition parse_args :: "opt_spec \<Rightarrow> string list \<Rightarrow> (string, arg_val) dict res" where
  "parse_args opts argv = parse_opts (with_help opts) argv []"

definition arg_str :: "(string, arg_val) dict \<Rightarrow> string \<Rightarrow> string \<Rightarrow> string" where
  "arg_str d k dflt = (case map_of d k of Some (AStr s) \<Rightarrow> s | _ \<Rightarrow> dflt)"

definition arg_int :: "(string, arg_val) dict \<Rightarrow> string \<Rightarrow> int \<Rightarrow> int" where
  "arg_int d k dflt = (case map_of d k of Some (AInt i) \<Rightarrow> i | _ \<Rightarrow> dflt)"

definition arg_flag :: "(string, arg_val) dict \<Rightarrow> string \<Rightarrow> bool" where
  "arg_flag d k = (map_of d k = Some (AFlag True))"

section \<open>Options are read as they are written\<close>

text \<open>A setting of an option and the arguments that state it.\<close>

fun opt_args :: "string \<times> arg_val \<Rightarrow> string list" where
  "opt_args (n, AStr s) = [n, s]"
| "opt_args (n, AInt i) = [n, str_int i]"
| "opt_args (n, AFlag b) = [n]"

fun opt_fits :: "opt_kind \<Rightarrow> arg_val \<Rightarrow> bool" where
  "opt_fits OptStr (AStr s) = (s = [] \<or> hd s \<noteq> CHR ''-'')"
| "opt_fits (OptChoice cs) (AStr s) = ((s = [] \<or> hd s \<noteq> CHR ''-'') \<and> s \<in> set cs)"
| "opt_fits OptInt (AInt i) = True"
| "opt_fits OptFlag (AFlag b) = b"
| "opt_fits _ _ = False"

definition opt_setting :: "opt_spec \<Rightarrow> string \<times> arg_val \<Rightarrow> bool" where
  "opt_setting opts nv \<longleftrightarrow> (case map_of opts (fst nv) of Some kind \<Rightarrow> opt_fits kind (snd nv) | None \<Rightarrow> False)"

definition long_options :: "opt_spec \<Rightarrow> bool" where
  "long_options opts \<longleftrightarrow> list_all (\<lambda>(n, _). prefix ''--'' n \<and> n \<noteq> ''--help'') opts"

lemma classify_option:
  "prefix ''--'' n \<Longrightarrow> map_of (with_help opts) n = Some kind \<Longrightarrow> classify (with_help opts) n = Opt n kind None"
  by (auto simp: classify_def prefix_def)

lemma classify_int:
  assumes "long_options opts"
  shows "classify (with_help opts) (str_int i) = Plain"
proof (cases "i < 0")
  case True
  let ?n = "nat (- i)"
  obtain c cs where c: "str_nat ?n = c # cs" "is_digit c"
    using str_nat_digits [of ?n] by (cases "str_nat ?n") auto
  have num: "str_int i = CHR ''-'' # c # cs" using True c by (simp add: str_int_def)
  have dig: "list_all is_digit (c # cs)" using str_nat_digits [of ?n] c by simp
  have cd: "c \<noteq> CHR ''-''" "c \<noteq> CHR ''h''" "CHR ''='' \<notin> set (c # cs)" "last (c # cs) \<noteq> CHR 0x0A"
    using dig c(2) last_in_set [of "c # cs"] by (auto simp: list_all_iff is_digit_def simp del: last.simps)
  have none: "map_of opts (CHR ''-'' # c # cs) = None"
    using assms cd(1) by (force simp: long_options_def list_all_iff map_of_eq_None_iff)
  have cand: "option_candidates (with_help opts) (CHR ''-'' # c # cs) k = []" for k
  proof -
    let ?a = "CHR ''-'' # c # cs"
    have "n \<noteq> take 2 ?a \<and> \<not> prefix ?a n" if "n = ''-h'' \<or> prefix ''--'' n" for n
      using that cd(1,2) by (cases n; cases "tl n") auto
    moreover have "n = ''-h'' \<or> prefix ''--'' n" if "(n, kd) \<in> set (with_help opts)" for n kd
      using that assms by (auto simp: with_help_def long_options_def list_all_iff)
    moreover have "\<not> prefix ''--'' ?a" using cd(1) by simp
    ultimately show ?thesis unfolding option_candidates_def filter_empty_conv by (auto split: prod.splits)
  qed
  have "dropWhile is_digit (c # cs) = []" using dig unfolding dropWhile_eq_Nil_conv list_all_iff .
  then have "negative_number (CHR ''-'' # c # cs)"
    using cd(4) by (simp only: negative_number_def Let_def list.case list.distinct simp_thms if_False)
  then show ?thesis
    using cd none cand by (simp add: num classify_def with_help_def partition_on_def Let_def)
next
  case False
  then have "list_all is_digit (str_int i)" "str_int i \<noteq> []" using str_nat_digits by (simp_all add: str_int_def)
  then show ?thesis by (cases "str_int i") (auto simp: classify_def)
qed

lemma parse_setting:
  assumes "long_options opts" "opt_setting opts nv"
  shows "parse_opts (with_help opts) (opt_args nv @ rest) acc =
    parse_opts (with_help opts) rest (AList.update (fst nv) (snd nv) acc)"
proof -
  obtain n v where nv: "nv = (n, v)" by (cases nv)
  obtain kind where kind: "map_of opts n = Some kind" "opt_fits kind v"
    using assms(2) by (auto simp: opt_setting_def nv split: option.splits)
  have long: "prefix ''--'' n" "n \<noteq> ''--help''"
    using assms(1) map_of_SomeD [OF kind(1)] by (auto simp: long_options_def list_all_iff)
  then have "n \<noteq> ''-h''" by auto
  then have "map_of (with_help opts) n = Some kind" using kind(1) long(2) by (simp add: with_help_def)
  note cls = classify_option [OF long(1) this]
  show ?thesis
  proof (cases v)
    case (AStr s)
    then have "classify (with_help opts) s = Plain" using kind(2) by (cases kind) (auto simp: classify_def)
    then show ?thesis using kind(2) AStr by (cases kind) (simp_all add: nv cls convert_def)
  next
    case (AInt i)
    then show ?thesis using kind(2) classify_int [OF assms(1), of i] by (cases kind) (simp_all add: nv cls convert_def)
  next
    case (AFlag b)
    then show ?thesis using kind(2) by (cases kind) (simp_all add: nv cls)
  qed
qed

theorem parse_args_settings:
  assumes "long_options opts" "list_all (opt_setting opts) nvs"
  shows "parse_args opts (concat (map opt_args nvs)) = Inr (dict_of nvs)"
proof -
  have "parse_opts (with_help opts) (concat (map opt_args nvs)) acc = Inr (fold (\<lambda>(k, v). AList.update k v) nvs acc)" for acc
    using assms(2) by (induction nvs arbitrary: acc) (simp_all add: parse_setting [OF assms(1)] case_prod_beta)
  then show ?thesis by (simp add: parse_args_def dict_of_def)
qed

lemma parse_opts_raises: "parse_opts opts argv acc = Inl e \<Longrightarrow> e = SystemExit"
  by (induction opts argv acc rule: parse_opts.induct)
     (auto simp: res_bind_def convert_def split: arg_class.splits if_splits option.splits list.splits sum.splits opt_kind.splits)

text \<open>Whatever is accepted has the form the declaration of its option asks for.\<close>

lemma classify_kind: "classify opts a = Opt n kind arg \<Longrightarrow> (n, kind) \<in> set opts"
  by (auto simp: classify_def Let_def option_candidates_def dest: map_of_SomeD filter_eq_ConsD
      split: if_splits option.splits prod.splits list.splits)

definition kind_val :: "opt_kind \<Rightarrow> arg_val \<Rightarrow> bool" where
  "kind_val kind x \<longleftrightarrow>
     (case kind of OptInt \<Rightarrow> \<exists>i. x = AInt i | OptChoice cs \<Rightarrow> \<exists>v \<in> set cs. x = AStr v | OptFlag \<Rightarrow> x = AFlag True
      | _ \<Rightarrow> \<exists>v. x = AStr v)"

lemma convert_kind: "convert kind v = Inr x \<Longrightarrow> kind \<noteq> OptFlag \<Longrightarrow> kind_val kind x"
  by (auto simp: convert_def kind_val_def split: opt_kind.splits sum.splits if_splits)

lemma parse_opts_kinds:
  "parse_opts opts argv acc = Inr d \<Longrightarrow> \<forall>(n, x) \<in> set acc. \<exists>kind. (n, kind) \<in> set opts \<and> kind_val kind x \<Longrightarrow>
   \<forall>(n, x) \<in> set d. \<exists>kind. (n, kind) \<in> set opts \<and> kind_val kind x"
proof (induction opts argv acc rule: parse_opts.induct)
  case (2 opts a rest acc)
  obtain n kind arg where c: "classify opts a = Opt n kind arg"
    using "2.prems"(1) by (cases "classify opts a") auto
  note mem = classify_kind [OF c]
  have upd: "\<forall>(n, x) \<in> set (AList.update n x acc). \<exists>kind. (n, kind) \<in> set opts \<and> kind_val kind x"
    if "kind_val kind x" for x
  proof -
    have "set (AList.update n x acc) \<subseteq> insert (n, x) (set acc)" by (induction acc) auto
    then show ?thesis using "2.prems"(2) mem that by blast
  qed
  have nh: "kind \<noteq> OptHelp" using "2.prems"(1) c by auto
  show ?case
  proof (cases "kind = OptFlag")
    case True
    then show ?thesis using "2.prems"(1) "2.IH"(1) [OF c nh True] upd [of "AFlag True"] c
      by (auto simp: kind_val_def split: if_splits)
  next
    case False
    note IH = "2.IH"(2,3) [OF c nh False]
    show ?thesis
    proof (cases arg)
      case (Some v)
      then obtain x where x: "convert kind v = Inr x" "parse_opts opts rest (AList.update n x acc) = Inr d"
        using "2.prems"(1) c nh False by (auto simp: res_bind_Inr)
      show ?thesis by (rule IH(2) [OF Some x upd [OF convert_kind [OF x(1) False]]])
    next
      case None
      then obtain v rest' x where x: "rest = v # rest'" "classify opts v = Plain" "convert kind v = Inr x"
          "parse_opts opts rest' (AList.update n x acc) = Inr d"
        using "2.prems"(1) c nh False by (auto simp: res_bind_Inr split: list.splits if_splits)
      show ?thesis by (rule IH(1) [OF None x upd [OF convert_kind [OF x(3) False]]])
    qed
  qed
qed simp

end
