(* ===== verification/BenchArgs.thy ===== *)
theory BenchArgs
  imports BenchMain PyArgs
begin

text \<open>
  The command line of \<open>bench/bench.py\<close>: the options \<open>main\<close> declares and the record of their
  values, \<open>args\<close>. Every setting can be written as a command line that is read back, and whatever
  command line is accepted names scenarios that exist.
\<close>

section \<open>Options\<close>

record bench_args =
  ba_host :: string
  ba_port :: int
  ba_admin_port :: int
  ba_count :: int
  ba_scenario :: string
  ba_out :: string
  ba_no_spawn :: bool
  ba_save :: bool
  ba_version_override :: "string option"

definition BENCH_OPTIONS :: opt_spec where
  "BENCH_OPTIONS =
     [(''--host'', OptStr), (''--port'', OptInt), (''--admin-port'', OptInt), (''--count'', OptInt),
      (''--scenario'', OptChoice [''add'', ''cancel'', ''match'', ''mixed'', ''all'']), (''--out'', OptStr),
      (''--no-spawn'', OptFlag), (''--save'', OptFlag), (''--version-override'', OptStr)]"

definition bench_args_of :: "string list \<Rightarrow> bench_args res" where
  "bench_args_of argv =
     res_bind (parse_args BENCH_OPTIONS argv) (\<lambda>d.
       Inr \<lparr>ba_host = arg_str d ''--host'' ''127.0.0.1'', ba_port = arg_int d ''--port'' 5001,
            ba_admin_port = arg_int d ''--admin-port'' 5002, ba_count = arg_int d ''--count'' 10000,
            ba_scenario = arg_str d ''--scenario'' ''all'', ba_out = arg_str d ''--out'' ''bench/bench_results'',
            ba_no_spawn = arg_flag d ''--no-spawn'', ba_save = arg_flag d ''--save'',
            ba_version_override =
              (case map_of d ''--version-override'' of Some (AStr v) \<Rightarrow> Some v | _ \<Rightarrow> None)\<rparr>)"

section \<open>Command lines and settings\<close>

text \<open>A command line that states every setting.\<close>

definition bench_settings :: "bench_args \<Rightarrow> (string \<times> arg_val) list" where
  "bench_settings a =
     [(''--host'', AStr (ba_host a)), (''--port'', AInt (ba_port a)), (''--admin-port'', AInt (ba_admin_port a)),
      (''--count'', AInt (ba_count a)), (''--scenario'', AStr (ba_scenario a)), (''--out'', AStr (ba_out a))] @
     (if ba_no_spawn a then [(''--no-spawn'', AFlag True)] else []) @
     (if ba_save a then [(''--save'', AFlag True)] else []) @
     (case ba_version_override a of None \<Rightarrow> [] | Some v \<Rightarrow> [(''--version-override'', AStr v)])"

definition bench_argv :: "bench_args \<Rightarrow> string list" where
  "bench_argv a = concat (map opt_args (bench_settings a))"

text \<open>A text that a parser does not take for an option.\<close>

definition plain_text :: "string \<Rightarrow> bool" where
  "plain_text s \<longleftrightarrow> s = [] \<or> hd s \<noteq> CHR ''-''"

lemma BENCH_OPTIONS_long: "long_options BENCH_OPTIONS"
  by (simp add: long_options_def BENCH_OPTIONS_def)

lemma bench_settings_fit:
  assumes "plain_text (ba_host a)" "plain_text (ba_out a)" "pred_option plain_text (ba_version_override a)"
    and "ba_scenario a \<in> {''add'', ''cancel'', ''match'', ''mixed'', ''all''}"
  shows "list_all (opt_setting BENCH_OPTIONS) (bench_settings a)"
  using assms
  by (auto simp: bench_settings_def opt_setting_def BENCH_OPTIONS_def plain_text_def split: option.splits)

lemma bench_settings_distinct: "distinct (map fst (bench_settings a))"
  by (simp add: bench_settings_def split: option.split)

lemma bench_argv_read:
  assumes "list_all (opt_setting BENCH_OPTIONS) (bench_settings a)"
  shows "bench_args_of (bench_argv a) = Inr a"
proof -
  have "parse_args BENCH_OPTIONS (bench_argv a) = Inr (bench_settings a)"
    using parse_args_settings [OF BENCH_OPTIONS_long assms] dict_of_distinct_eq [OF bench_settings_distinct]
    by (simp add: bench_argv_def)
  then show ?thesis
    by (cases a) (simp add: bench_args_of_def bench_settings_def arg_str_def arg_int_def arg_flag_def split: option.split)
qed

lemma accepted_scenario:
  assumes "bench_args_of argv = Inr a"
  shows "ba_scenario a \<in> {''add'', ''cancel'', ''match'', ''mixed'', ''all''}"
proof -
  obtain d where d: "parse_args BENCH_OPTIONS argv = Inr d" "ba_scenario a = arg_str d ''--scenario'' ''all''"
    using assms by (auto simp: bench_args_of_def res_bind_Inr)
  note fits = parse_opts_kinds [OF d(1) [unfolded parse_args_def]]
  have "v \<in> {''add'', ''cancel'', ''match'', ''mixed'', ''all''}" if "map_of d ''--scenario'' = Some (AStr v)" for v
  proof -
    note given = map_of_SomeD [OF that]
    obtain kind where "(''--scenario'', kind) \<in> set (with_help BENCH_OPTIONS)" "kind_val kind (AStr v)"
      using fits given by auto
    then show ?thesis by (auto simp: with_help_def BENCH_OPTIONS_def kind_val_def)
  qed
  then show ?thesis by (auto simp: d(2) arg_str_def split: option.splits arg_val.splits)
qed

lemma to_run_accepted:
  "sc \<in> {''add'', ''cancel'', ''match'', ''mixed'', ''all''} \<Longrightarrow> \<exists>items. to_run (SCENARIOS clock now) sc = Inr items"
  by (auto simp: to_run_def SCENARIOS_def)

text \<open>
  C26: Command lines of the benchmark. A setting of the options, written out, is read back as it
  was, whatever the numbers are, as long as its texts do not look like options; without arguments
  the defaults hold. Every command line that is accepted names scenarios that exist, so the look-up
  of the scenario cannot fail, and one that is not ends the program with SystemExit.
\<close>

theorem bench_command_line:
  "plain_text (ba_host a) \<Longrightarrow> plain_text (ba_out a) \<Longrightarrow> pred_option plain_text (ba_version_override a) \<Longrightarrow>
   to_run (SCENARIOS clock now) (ba_scenario a) = Inr items \<Longrightarrow>
   bench_args_of (bench_argv a) = Inr a \<and>
   bench_args_of [] = Inr \<lparr>ba_host = ''127.0.0.1'', ba_port = 5001, ba_admin_port = 5002, ba_count = 10000,
     ba_scenario = ''all'', ba_out = ''bench/bench_results'', ba_no_spawn = False, ba_save = False,
     ba_version_override = None\<rparr> \<and>
   (case bench_args_of argv of
      Inl e \<Rightarrow> e = SystemExit
    | Inr b \<Rightarrow> \<exists>chosen. to_run (SCENARIOS clock now) (ba_scenario b) = Inr chosen)"
proof (intro conjI)
  assume a: "plain_text (ba_host a)" "plain_text (ba_out a)" "pred_option plain_text (ba_version_override a)"
    "to_run (SCENARIOS clock now) (ba_scenario a) = Inr items"
  have "ba_scenario a \<in> {''add'', ''cancel'', ''match'', ''mixed'', ''all''}"
    using a(4) by (auto simp: to_run_def SCENARIOS_def split: if_splits option.splits)
  then show "bench_args_of (bench_argv a) = Inr a" by (intro bench_argv_read bench_settings_fit a(1-3))
  show "bench_args_of [] = Inr \<lparr>ba_host = ''127.0.0.1'', ba_port = 5001, ba_admin_port = 5002, ba_count = 10000,
     ba_scenario = ''all'', ba_out = ''bench/bench_results'', ba_no_spawn = False, ba_save = False,
     ba_version_override = None\<rparr>"
    by (simp add: bench_args_of_def parse_args_def arg_str_def arg_int_def arg_flag_def)
  show "case bench_args_of argv of Inl e \<Rightarrow> e = SystemExit
    | Inr b \<Rightarrow> \<exists>chosen. to_run (SCENARIOS clock now) (ba_scenario b) = Inr chosen"
  proof (cases "bench_args_of argv")
    case (Inl e)
    then have "parse_args BENCH_OPTIONS argv = Inl e" by (auto simp: bench_args_of_def res_bind_def split: sum.splits)
    then show ?thesis using parse_opts_raises [of "with_help BENCH_OPTIONS" argv "[]" e] Inl by (simp add: parse_args_def)
  next
    case (Inr b)
    then show ?thesis using to_run_accepted [OF accepted_scenario [OF Inr]] by simp
  qed
qed

theorem bench_command_line_witness:
  "\<exists>a. bench_argv a = [''--host'', ''localhost'', ''--port'', ''-7'', ''--admin-port'', ''5002'', ''--count'', ''10'',
       ''--scenario'', ''match'', ''--out'', ''x'', ''--save''] \<and> bench_args_of (bench_argv a) = Inr a"
proof -
  let ?a = "\<lparr>ba_host = ''localhost'', ba_port = -7, ba_admin_port = 5002, ba_count = 10, ba_scenario = ''match'',
    ba_out = ''x'', ba_no_spawn = False, ba_save = True, ba_version_override = None\<rparr>"
  have "bench_argv ?a = [''--host'', ''localhost'', ''--port'', ''-7'', ''--admin-port'', ''5002'', ''--count'', ''10'',
       ''--scenario'', ''match'', ''--out'', ''x'', ''--save'']"
    by code_simp
  moreover have "bench_args_of (bench_argv ?a) = Inr ?a"
    using bench_command_line [of ?a "\<lambda>k. 0" "\<lambda>k. []"]
    by (simp add: plain_text_def to_run_def SCENARIOS_def)
  ultimately show ?thesis by blast
qed

end
