(* ===== verification/PyChart.thy ===== *)
theory PyChart
  imports PyState
begin

text \<open>
  What the programs hand to matplotlib, as data: a figure is its texts, what is drawn into it in
  order, and the limits of its vertical axis where the program sets them. Colours, sizes and
  layout are left out. \<open>Saved\<close> is \<open>savefig\<close> to a path, \<open>Printed\<close> a line on the console. The four
  characters outside ASCII in these texts are written with their Windows-1252 codes.
\<close>

abbreviation MU :: string where "MU \<equiv> [CHR 0xB5]"
abbreviation DASH :: string where "DASH \<equiv> [CHR 0x97]"
abbreviation ELLIPSIS :: string where "ELLIPSIS \<equiv> [CHR 0x85]"

text \<open>
  A curve over numbers, a series over names (\<open>None\<close> is a \<open>nan\<close>, which is not drawn), a group of
  bars with a text on each, a horizontal rule labelled with its height as \<open>p\<close> and the number.
\<close>

datatype draw =
    Curve string "(rat \<times> rat) list"
  | Series string "(string \<times> rat option) list"
  | Bars string "(string \<times> rat \<times> string) list"
  | Rule int

record figure =
  fig_title :: string
  fig_xlabel :: string
  fig_ylabel :: string
  fig_marks :: "draw list"
  fig_ylim :: "(rat \<times> rat) option"

datatype shown = Printed string | Saved string figure

text \<open>\<open>os.path.join\<close> of a directory and a relative name.\<close>

definition path_join :: "string \<Rightarrow> string \<Rightarrow> string" where
  "path_join dir name =
     (if dir = [] then name else if last dir = CHR ''/'' then dir @ name else dir @ ''/'' @ name)"

text \<open>\<open>fig.savefig(path)\<close> and the line that reports it.\<close>

definition save_figure :: "string \<Rightarrow> figure \<Rightarrow> shown list" where
  "save_figure path fig = [Saved path fig, Printed (''  saved '' @ path)]"

end
