(* ===== verification/BenchCharts.thy ===== *)
theory BenchCharts
  imports BenchResults PyChart
begin

text \<open>
  The report of \<open>bench/bench.py\<close>: \<open>print_results\<close>, with the tables and histograms of rich when it is
  installed and the plain table otherwise, and the three figures of \<open>save_charts\<close>.
\<close>

section \<open>On the console\<close>

definition TABLE_COLUMNS :: "string list" where
  "TABLE_COLUMNS = [''scenario'', ''n'', ''rtt p50'', ''rtt p99'', ''int p50'', ''int p99'', ''queue p50'', ''ops/sec'']"

text \<open>A table without its borders: the heads of the columns and the rows.\<close>

definition rich_table :: "(string, scenario_result) dict \<Rightarrow> string list \<times> string list list" where
  "rich_table results =
     (TABLE_COLUMNS, map (\<lambda>nr. map (\<lambda>c. case c of Some s \<Rightarrow> s | None \<Rightarrow> DASH) (table_row nr)) results)"

type_synonym hist_rows = "(string \<times> string \<times> int \<times> rat) list"

fun rich_histograms :: "(string, scenario_result) dict \<Rightarrow> (string \<times> hist_rows) list res" where
  "rich_histograms [] = Inr []"
| "rich_histograms ((name, r) # results) =
     res_bind (histogram (sr_rtt r)) (\<lambda>h.
     res_bind (rich_histograms results) (\<lambda>hs.
       Inr (case h of None \<Rightarrow> hs | Some (_, rows) \<Rightarrow> (name, rows) # hs)))"

datatype bench_report =
    RichReport "string list \<times> string list list" "(string \<times> hist_rows) list"
  | PlainReport "string list"

definition print_results :: "bool \<Rightarrow> (string, scenario_result) dict \<Rightarrow> bench_report res" where
  "print_results rich results =
     (if rich then res_bind (rich_histograms results) (\<lambda>hs. Inr (RichReport (rich_table results) hs))
      else Inr (PlainReport (plain_table DASH results)))"

section \<open>Figures\<close>

definition cdf_figure :: "(string, scenario_result) dict \<Rightarrow> figure" where
  "cdf_figure results =
     \<lparr>fig_title = ''fix-exchange '' @ DASH @ '' Round-Trip Latency CDF'', fig_xlabel = ''Latency ('' @ MU @ ''s)'',
      fig_ylabel = ''Percentile'',
      fig_marks = map (\<lambda>(name, c). Curve name c) (cdf_curves results) @ map Rule [50, 95, 99],
      fig_ylim = Some (0, 101)\<rparr>"

definition throughput_top :: "(string, scenario_result) dict \<Rightarrow> rat" where
  "throughput_top results =
     (let ops = map (\<lambda>(_, v, _). v) (throughput_bars results)
      in if ops \<noteq> [] then py_mul (Max (set ops)) (5 / 4) else 1)"

definition throughput_figure :: "(string, scenario_result) dict \<Rightarrow> figure" where
  "throughput_figure results =
     \<lparr>fig_title = ''fix-exchange '' @ DASH @ '' Throughput by Scenario'', fig_xlabel = [], fig_ylabel = ''ops / sec'',
      fig_marks = [Bars [] (throughput_bars results)], fig_ylim = Some (0, throughput_top results)\<rparr>"

text \<open>The bars of the internal times carry a dash where there is nothing to show.\<close>

definition p50_label :: "rat \<Rightarrow> string" where
  "p50_label v = (if v \<noteq> 0 then fmt_us v else DASH)"

definition comparison_figure :: "(string, scenario_result) dict \<Rightarrow> figure" where
  "comparison_figure results =
     \<lparr>fig_title = ''fix-exchange '' @ DASH @ '' RTT vs Internal vs Queue Wait (p50)'', fig_xlabel = [],
      fig_ylabel = ''Latency ('' @ MU @ ''s)'',
      fig_marks =
        [Bars ''RTT p50'' (map (\<lambda>(n, r). case p50_bars r of (v, _, _) \<Rightarrow> (n, v, fmt_us v)) results),
         Bars ''Internal p50'' (map (\<lambda>(n, r). case p50_bars r of (_, v, _) \<Rightarrow> (n, v, p50_label v)) results),
         Bars ''Queue wait p50'' (map (\<lambda>(n, r). case p50_bars r of (_, _, v) \<Rightarrow> (n, v, p50_label v)) results)],
      fig_ylim = None\<rparr>"

definition save_charts :: "bool \<Rightarrow> (string, scenario_result) dict \<Rightarrow> string \<Rightarrow> shown list" where
  "save_charts installed results out_dir =
     (if \<not> installed then [Printed (''matplotlib not installed '' @ DASH @ '' skipping chart generation'')]
      else save_figure (path_join out_dir ''latency_cdf.png'') (cdf_figure results) @
           save_figure (path_join out_dir ''throughput.png'') (throughput_figure results) @
           save_figure (path_join out_dir ''internal_vs_rtt.png'') (comparison_figure results))"

section \<open>Everything that was measured is drawn, and fits\<close>

lemma cdf_curve_range: "(v, y) \<in> set (cdf_curve rtt) \<Longrightarrow> 0 \<le> y \<and> y \<le> 100"
proof -
  assume "(v, y) \<in> set (cdf_curve rtt)"
  then obtain i where i: "i < length rtt" "y = py_mul (fl (of_nat (i + 1) / of_nat (length rtt))) 100"
    by (auto simp: cdf_curve_def Let_def dest!: set_zip_rightD)
  let ?q = "of_nat (i + 1) / of_nat (length rtt) :: rat"
  have one: "fl 1 = 1" "fl 100 = 100" using fl_id [OF is_double_of_int [of 1]] fl_id [OF is_double_of_int [of 100]] by simp_all
  have "(of_nat (i + 1) :: rat) \<le> of_nat (length rtt)" using i(1) by (simp only: of_nat_le_iff)
  then have "0 \<le> ?q" "?q \<le> 1" using i(1) by (simp_all add: divide_le_eq_1)
  then have "0 \<le> fl ?q" "fl ?q \<le> 1" using fl_nonneg fl_mono [of ?q 1] one by simp_all
  then have "0 \<le> fl ?q * 100" "fl ?q * 100 \<le> 100" by simp_all
  then show ?thesis using fl_nonneg fl_mono [of "fl ?q * 100" 100] one by (simp only: i(2) py_mul_def)
qed

lemma cdf_curves_complete:
  "length results \<le> 4 \<Longrightarrow> (name, r) \<in> set results \<Longrightarrow> sr_rtt r \<noteq> [] \<Longrightarrow> (name, cdf_curve (sr_rtt r)) \<in> set (cdf_curves results)"
  by (force simp: cdf_curves_def)

lemma quarter_more:
  assumes "is_double v" "0 \<le> v"
  shows "v \<le> py_mul v (5 / 4)"
proof -
  have "fl v \<le> fl (v * (5 / 4))" using assms(2) by (intro fl_mono) simp
  then show ?thesis using fl_id [OF assms(1)] by (simp add: py_mul_def)
qed

lemma throughput_fits:
  assumes "\<And>name r. (name, r) \<in> set results \<Longrightarrow> is_double (bst_ops_sec (sr_rtt_stats r)) \<and> 0 \<le> bst_ops_sec (sr_rtt_stats r)"
    and "(name, v, l) \<in> set (throughput_bars results)"
  shows "0 \<le> v \<and> v \<le> throughput_top results"
proof -
  let ?ops = "map (\<lambda>(_, v, _). v) (throughput_bars results)"
  have ops: "is_double u \<and> 0 \<le> u" if "u \<in> set ?ops" for u
    using that assms(1) by (auto simp: throughput_bars_def)
  have v: "v \<in> set ?ops" using assms(2) by force
  then have ne: "?ops \<noteq> []" by force
  then have m: "Max (set ?ops) \<in> set ?ops" by (intro Max_in) auto
  have "v \<le> Max (set ?ops)" using v by simp
  also have "\<dots> \<le> py_mul (Max (set ?ops)) (5 / 4)" using ops [OF m] by (intro quarter_more) simp_all
  finally show ?thesis using ops [OF v] ne by (simp add: throughput_top_def Let_def)
qed

end
