(* ===== verification/BenchHistory.thy ===== *)
theory BenchHistory
  imports BenchResults
begin

text \<open>
  The history of benchmark results, \<open>save_results\<close> of \<open>bench/bench.py\<close>, on the two tables it
  creates in SQLite. A table is the list of its rows in rowid order; \<open>seq\<close> is the entry of
  \<open>sqlite_sequence\<close> that \<open>AUTOINCREMENT\<close> keeps, the largest id ever given. Foreign keys are not
  enforced by SQLite unless asked, so referential integrity is a property of the program. The
  output of the two \<open>git\<close> commands and the clock are arguments.
\<close>

record run_row =
  run_id :: nat
  run_at :: string
  run_version :: string
  run_commit :: string
  run_build :: string
  run_scn :: string
  run_n :: nat

record sample_row =
  smp_id :: nat
  smp_run :: nat
  smp_kind :: string
  smp_value :: rat

record bench_db =
  db_runs :: "run_row list"
  db_run_seq :: nat
  db_samples :: "sample_row list"
  db_sample_seq :: nat

definition empty_db :: bench_db where
  "empty_db = \<lparr>db_runs = [], db_run_seq = 0, db_samples = [], db_sample_seq = 0\<rparr>"

text \<open>\<open>DELETE FROM bench_samples WHERE run_id IN (...)\<close>, \<open>DELETE FROM bench_runs WHERE git_version=?\<close>\<close>

definition delete_version :: "string \<Rightarrow> bench_db \<Rightarrow> bench_db" where
  "delete_version v db =
     (let ids = map run_id (filter (\<lambda>r. run_version r = v) (db_runs db))
      in if ids = [] then db
         else db\<lparr>db_samples := filter (\<lambda>x. smp_run x \<notin> set ids) (db_samples db),
                 db_runs := filter (\<lambda>r. run_version r \<noteq> v) (db_runs db)\<rparr>)"

definition insert_run :: "string \<Rightarrow> string \<Rightarrow> string \<Rightarrow> string \<Rightarrow> nat \<Rightarrow> bench_db \<Rightarrow> nat \<times> bench_db" where
  "insert_run ts version commit scn n db =
     (let i = db_run_seq db + 1
      in (i, db\<lparr>db_runs := db_runs db @ [\<lparr>run_id = i, run_at = ts, run_version = version,
                 run_commit = commit, run_build = ''Release'', run_scn = scn, run_n = n\<rparr>],
              db_run_seq := i\<rparr>))"

fun insert_samples :: "(nat \<times> string \<times> rat) list \<Rightarrow> bench_db \<Rightarrow> bench_db" where
  "insert_samples [] db = db"
| "insert_samples ((rid, kind, v) # rows) db =
     (let i = db_sample_seq db + 1
      in insert_samples rows (db\<lparr>db_samples := db_samples db @
             [\<lparr>smp_id = i, smp_run = rid, smp_kind = kind, smp_value = v\<rparr>], db_sample_seq := i\<rparr>))"

definition kinds_of :: "scenario_result \<Rightarrow> (string \<times> rat list) list" where
  "kinds_of r =
     [(''rtt'', sr_rtt r), (''ack_total'', sr_ack_total r), (''ack_queue'', sr_ack_queue r),
      (''cancel_total'', sr_cancel_total r), (''cancel_queue'', sr_cancel_queue r),
      (''fill_total'', sr_fill_total r), (''fill_queue'', sr_fill_queue r)]"

definition result_rows :: "nat \<Rightarrow> scenario_result \<Rightarrow> (nat \<times> string \<times> rat) list" where
  "result_rows rid r = concat (map (\<lambda>(kind, vs). map (\<lambda>v. (rid, kind, v)) vs) (kinds_of r))"

definition save_one :: "string \<Rightarrow> string \<Rightarrow> string \<Rightarrow> string \<times> scenario_result \<Rightarrow> bench_db \<Rightarrow> bench_db" where
  "save_one ts version commit nr db =
     (case nr of (name, r) \<Rightarrow>
        case insert_run ts version commit name (bst_n (sr_rtt_stats r)) db of (rid, db') \<Rightarrow>
          insert_samples (result_rows rid r) db')"

definition saved_version :: "string res \<Rightarrow> string option \<Rightarrow> string res" where
  "saved_version git_describe version_override =
     (case version_override of
        Some (c # cs) \<Rightarrow> Inr (c # cs)
      | _ \<Rightarrow> res_bind git_describe (\<lambda>x. Inr (strip x)))"

definition save_results ::
  "string res \<Rightarrow> string res \<Rightarrow> string \<Rightarrow> string option \<Rightarrow> (string, scenario_result) dict
     \<Rightarrow> bench_db \<Rightarrow> bench_db res" where
  "save_results git_describe git_head ts version_override results db =
     res_bind (saved_version git_describe version_override) (\<lambda>version.
     res_bind (res_bind git_head (\<lambda>x. Inr (strip x))) (\<lambda>commit.
       Inr (fold (save_one ts version commit) results (delete_version version db))))"

section \<open>Well-formed databases\<close>

text \<open>Ids are unique and at most the sequence counter; every sample belongs to a run.\<close>

definition db_ok :: "bench_db \<Rightarrow> bool" where
  "db_ok db \<longleftrightarrow>
     distinct (map run_id (db_runs db)) \<and> list_all (\<lambda>r. run_id r \<le> db_run_seq db) (db_runs db) \<and>
     distinct (map smp_id (db_samples db)) \<and> list_all (\<lambda>x. smp_id x \<le> db_sample_seq db) (db_samples db) \<and>
     list_all (\<lambda>x. smp_run x \<in> set (map run_id (db_runs db))) (db_samples db)"

definition samples_of :: "bench_db \<Rightarrow> nat \<Rightarrow> string \<Rightarrow> rat list" where
  "samples_of db rid kind =
     map smp_value (filter (\<lambda>x. smp_run x = rid \<and> smp_kind x = kind) (db_samples db))"

lemma insert_samples_frame [simp]:
  "db_runs (insert_samples rows db) = db_runs db" "db_run_seq (insert_samples rows db) = db_run_seq db"
  by (induction rows db rule: insert_samples.induct) (simp_all add: Let_def)

lemma insert_samples_values:
  "map (\<lambda>x. (smp_run x, smp_kind x, smp_value x)) (db_samples (insert_samples rows db)) =
   map (\<lambda>x. (smp_run x, smp_kind x, smp_value x)) (db_samples db) @ rows"
  by (induction rows db rule: insert_samples.induct) (simp_all add: Let_def)

lemma insert_samples_ok:
  "db_ok db \<Longrightarrow> list_all (\<lambda>(rid, _, _). rid \<in> set (map run_id (db_runs db))) rows \<Longrightarrow> db_ok (insert_samples rows db)"
proof (induction rows db rule: insert_samples.induct)
  case (2 rid kind v rows db)
  let ?db = "db\<lparr>db_samples := db_samples db @
      [\<lparr>smp_id = db_sample_seq db + 1, smp_run = rid, smp_kind = kind, smp_value = v\<rparr>],
      db_sample_seq := db_sample_seq db + 1\<rparr>"
  have "db_ok ?db" using 2(2,3) by (force simp: db_ok_def list_all_iff)
  then show ?case using 2(1) [OF refl] 2(3) by (simp add: Let_def)
qed simp

lemma samples_of_insert:
  "samples_of (insert_samples rows db) rid kind =
   samples_of db rid kind @ map (\<lambda>(_, _, v). v) (filter (\<lambda>(r, k, _). r = rid \<and> k = kind) rows)"
  by (induction rows db rule: insert_samples.induct) (auto simp: Let_def samples_of_def)

lemma db_ok_empty: "db_ok empty_db"
  by (simp add: db_ok_def empty_db_def)

lemma db_ok_delete: "db_ok db \<Longrightarrow> db_ok (delete_version v db)"
  by (fastforce simp: db_ok_def delete_version_def Let_def list_all_iff distinct_map_filter)

lemma db_ok_insert_run: "db_ok db \<Longrightarrow> insert_run ts v c scn n db = (rid, db') \<Longrightarrow> db_ok db'"
  by (force simp: db_ok_def insert_run_def Let_def list_all_iff)

lemma result_rows_run: "list_all (\<lambda>(r, _, _). r = rid) (result_rows rid res)"
  by (auto simp: result_rows_def list_all_iff)

lemma db_ok_save_one:
  assumes "db_ok db"
  shows "db_ok (save_one ts v c nr db)"
proof -
  obtain name r where nr: "nr = (name, r)" by (cases nr)
  obtain rid db' where i: "insert_run ts v c name (bst_n (sr_rtt_stats r)) db = (rid, db')"
    by (cases "insert_run ts v c name (bst_n (sr_rtt_stats r)) db")
  then have "rid \<in> set (map run_id (db_runs db'))" by (auto simp: insert_run_def Let_def)
  then have "list_all (\<lambda>(x, _, _). x \<in> set (map run_id (db_runs db'))) (result_rows rid r)"
    using result_rows_run [of rid r] by (auto simp: list_all_iff)
  then show ?thesis
    using insert_samples_ok [OF db_ok_insert_run [OF assms i]] by (simp add: save_one_def nr i)
qed

section \<open>What a save does\<close>

lemma samples_of_rows:
  "map (\<lambda>(_, _, v). v) (filter (\<lambda>(x, k, _). x = rid \<and> k = kind) (result_rows rid r)) =
   (case map_of (kinds_of r) kind of Some vs \<Rightarrow> vs | None \<Rightarrow> [])"
proof -
  have "filter (\<lambda>(x, k, _). x = rid \<and> k = kind) (map (\<lambda>v. (rid, k', v)) vs) =
      (if k' = kind then map (\<lambda>v. (rid, k', v)) vs else [])" for k' and vs :: "rat list"
    by (induction vs) auto
  then show ?thesis by (auto simp: result_rows_def kinds_of_def comp_def)
qed

lemma samples_of_other_rows:
  "rid \<noteq> x \<Longrightarrow> filter (\<lambda>(r', k, _). r' = x \<and> k = kind) (result_rows rid r) = []"
  using result_rows_run [of rid r] by (auto simp: filter_empty_conv list_all_iff)

lemma samples_of_fresh: "db_ok db \<Longrightarrow> db_run_seq db < rid \<Longrightarrow> samples_of db rid kind = []"
  by (fastforce simp: db_ok_def samples_of_def list_all_iff filter_empty_conv)

text \<open>A stored run that carries a result.\<close>

definition stores :: "bench_db \<Rightarrow> string \<Rightarrow> string \<Rightarrow> string \<Rightarrow> run_row \<Rightarrow> string \<times> scenario_result \<Rightarrow> bool" where
  "stores db ts version commit row nr \<longleftrightarrow>
     row \<in> set (db_runs db) \<and> run_scn row = fst nr \<and> run_at row = ts \<and> run_version row = version \<and>
     run_commit row = commit \<and> run_n row = bst_n (sr_rtt_stats (snd nr)) \<and>
     (\<forall>kind. samples_of db (run_id row) kind =
        (case map_of (kinds_of (snd nr)) kind of Some vs \<Rightarrow> vs | None \<Rightarrow> []))"

lemma save_one_effect:
  assumes "db_ok db" "db' = save_one ts v c nr db"
  shows "\<exists>row. db_runs db' = db_runs db @ [row] \<and> run_id row = db_run_seq db + 1 \<and>
    db_run_seq db' = db_run_seq db + 1 \<and> stores db' ts v c row nr \<and>
    (\<forall>x kind. x \<le> db_run_seq db \<longrightarrow> samples_of db' x kind = samples_of db x kind)"
proof -
  obtain name r where nr: "nr = (name, r)" by (cases nr)
  let ?row = "\<lparr>run_id = db_run_seq db + 1, run_at = ts, run_version = v, run_commit = c, run_build = ''Release'',
      run_scn = name, run_n = bst_n (sr_rtt_stats r)\<rparr>"
  let ?db = "db\<lparr>db_runs := db_runs db @ [?row], db_run_seq := db_run_seq db + 1\<rparr>"
  have db': "db' = insert_samples (result_rows (db_run_seq db + 1) r) ?db"
    using assms(2) by (simp add: save_one_def nr insert_run_def Let_def)
  have smp: "samples_of ?db x kind = samples_of db x kind" for x kind by (simp add: samples_of_def)
  have "samples_of db' (db_run_seq db + 1) kind = (case map_of (kinds_of r) kind of Some vs \<Rightarrow> vs | None \<Rightarrow> [])" for kind
    unfolding db' samples_of_insert smp samples_of_rows using samples_of_fresh [OF assms(1)] by simp
  moreover have "samples_of db' x kind = samples_of db x kind" if "x \<le> db_run_seq db" for x kind
    unfolding db' samples_of_insert smp
    using that samples_of_other_rows [of "db_run_seq db + 1" x kind r] by simp
  ultimately show ?thesis by (intro exI [of _ ?row]) (simp add: db' stores_def nr)
qed

lemma save_fold:
  assumes "db_ok db"
  shows "\<exists>new. db_runs (fold (save_one ts v c) results db) = db_runs db @ new \<and>
    db_ok (fold (save_one ts v c) results db) \<and>
    list_all2 (stores (fold (save_one ts v c) results db) ts v c) new results \<and>
    (\<forall>x kind. x \<le> db_run_seq db \<longrightarrow>
       samples_of (fold (save_one ts v c) results db) x kind = samples_of db x kind)"
  using assms
proof (induction results arbitrary: db)
  case (Cons nr results)
  let ?db = "save_one ts v c nr db" and ?fin = "fold (save_one ts v c) results (save_one ts v c nr db)"
  obtain row where row: "db_runs ?db = db_runs db @ [row]" "run_id row = db_run_seq db + 1"
      "db_run_seq ?db = db_run_seq db + 1" "stores ?db ts v c row nr"
      "\<And>x kind. x \<le> db_run_seq db \<Longrightarrow> samples_of ?db x kind = samples_of db x kind"
    using save_one_effect [OF Cons.prems refl] by blast
  obtain new where new: "db_runs ?fin = db_runs ?db @ new" "db_ok ?fin" "list_all2 (stores ?fin ts v c) new results"
      "\<And>x kind. x \<le> db_run_seq ?db \<Longrightarrow> samples_of ?fin x kind = samples_of ?db x kind"
    using Cons.IH [OF db_ok_save_one [OF Cons.prems]] by blast
  have "stores ?fin ts v c row nr" using row(2-4) new(1,4) by (simp add: stores_def)
  then show ?case using row new by (intro exI [of _ "row # new"]) simp
qed simp

lemma delete_version_runs: "db_runs (delete_version v db) = filter (\<lambda>r. run_version r \<noteq> v) (db_runs db)"
  by (auto simp: delete_version_def Let_def filter_empty_conv intro!: filter_True [symmetric])

lemma delete_version_seq [simp]: "db_run_seq (delete_version v db) = db_run_seq db"
  by (simp add: delete_version_def Let_def)

lemma delete_version_samples:
  assumes "db_ok db" "r \<in> set (db_runs db)" "run_version r \<noteq> v"
  shows "samples_of (delete_version v db) (run_id r) kind = samples_of db (run_id r) kind"
proof -
  have "run_id r \<notin> set (map run_id (filter (\<lambda>r. run_version r = v) (db_runs db)))"
    using assms by (auto simp: db_ok_def distinct_map dest: inj_onD)
  then have "filter (\<lambda>x. smp_run x = run_id r \<and> smp_kind x = kind) (db_samples (delete_version v db)) =
      filter (\<lambda>x. smp_run x = run_id r \<and> smp_kind x = kind) (db_samples db)"
    unfolding delete_version_def Let_def by (auto intro!: filter_cong) (metis (mono_tags, lifting) imageI mem_Collect_eq)
  then show ?thesis by (simp add: samples_of_def)
qed

lemma save_effect:
  assumes "db_ok db" "saved_version git_describe override = Inr v" "git_head = Inr h"
  shows "\<exists>db'. save_results git_describe git_head ts override results db = Inr db' \<and> db_ok db' \<and>
    filter (\<lambda>r. run_version r \<noteq> v) (db_runs db') = filter (\<lambda>r. run_version r \<noteq> v) (db_runs db) \<and>
    (\<forall>r \<in> set (db_runs db). run_version r \<noteq> v \<longrightarrow>
       (\<forall>kind. samples_of db' (run_id r) kind = samples_of db (run_id r) kind)) \<and>
    list_all2 (stores db' ts v (strip h)) (filter (\<lambda>r. run_version r = v) (db_runs db')) results"
proof -
  let ?db = "delete_version v db"
  let ?fin = "fold (save_one ts v (strip h)) results ?db"
  obtain new where new: "db_runs ?fin = db_runs ?db @ new" "db_ok ?fin" "list_all2 (stores ?fin ts v (strip h)) new results"
      "\<And>x kind. x \<le> db_run_seq ?db \<Longrightarrow> samples_of ?fin x kind = samples_of ?db x kind"
    using save_fold [OF db_ok_delete [OF assms(1)]] by blast
  have "run_version r = v" if "r \<in> set new" for r
    using new(3) that by (auto simp: list_all2_conv_all_nth stores_def in_set_conv_nth)
  then have own: "filter (\<lambda>r. run_version r = v) new = new" "filter (\<lambda>r. run_version r \<noteq> v) new = []"
    by (auto simp: filter_empty_conv)
  have "samples_of ?fin (run_id r) kind = samples_of db (run_id r) kind"
    if "r \<in> set (db_runs db)" "run_version r \<noteq> v" for r kind
    using new(4) [of "run_id r"] delete_version_samples [OF assms(1) that] assms(1) that(1)
    by (simp add: db_ok_def list_all_iff)
  then show ?thesis
    using new own by (auto simp: save_results_def assms(2,3) delete_version_runs filter_empty_conv)
qed

text \<open>
  C14: Saving replaces exactly the results of its own version. In a well-formed database the rows
  of every other version and their samples stay as they were, the runs stored for the saved
  version are one per result, in order, each with exactly the samples of that result under their
  kinds, ids stay unique and no sample is left without its run.
\<close>

theorem save_results_replaces:
  assumes "db_ok db" "saved_version git_describe override = Inr v" "git_head = Inr h"
  shows "\<exists>db'. save_results git_describe git_head ts override results db = Inr db' \<and> db_ok db' \<and>
    filter (\<lambda>r. run_version r \<noteq> v) (db_runs db') = filter (\<lambda>r. run_version r \<noteq> v) (db_runs db) \<and>
    (\<forall>r \<in> set (db_runs db). run_version r \<noteq> v \<longrightarrow>
       (\<forall>kind. samples_of db' (run_id r) kind = samples_of db (run_id r) kind)) \<and>
    list_all2 (stores db' ts v (strip h)) (filter (\<lambda>r. run_version r = v) (db_runs db')) results"
  by (rule save_effect [OF assms])

definition example_stats :: bench_stats where
  "example_stats = \<lparr>bst_n = 1, bst_mean = 5, bst_p50 = 5, bst_p95 = 5, bst_p99 = 5, bst_max = 5, bst_ops_sec = 200000\<rparr>"

definition example_result :: scenario_result where
  "example_result = \<lparr>sr_rtt = [5], sr_rtt_stats = example_stats, sr_int_stats = example_stats,
     sr_queue_stats = example_stats, sr_ack_total = [2], sr_ack_queue = [1], sr_cancel_total = [],
     sr_cancel_queue = [], sr_fill_total = [], sr_fill_queue = []\<rparr>"

theorem save_results_replaces_witness:
  "\<exists>db'. save_results (Inl OSError) (Inr ''abc'') ''2026-01-01'' (Some ''v1.0'') [(''add'', example_result)] empty_db = Inr db' \<and>
     list_all2 (stores db' ''2026-01-01'' ''v1.0'' ''abc'') (filter (\<lambda>r. run_version r = ''v1.0'') (db_runs db'))
       [(''add'', example_result)]"
proof -
  have v: "saved_version (Inl OSError) (Some ''v1.0'') = Inr ''v1.0''" by (simp add: saved_version_def)
  have "strip ''abc'' = ''abc''" by code_simp
  then show ?thesis
    using save_results_replaces [OF db_ok_empty v refl, of "''abc''" "''2026-01-01''" "[(''add'', example_result)]"]
    by metis
qed

end
