(* ===== verification/PlotHistory.thy ===== *)
theory PlotHistory
  imports BenchHistory "HOL-Library.Char_ord" "HOL-Library.List_Lexorder"
begin

text \<open>
  \<open>bench/plot_history.py\<close>: the versions that count as releases, the data of the trend charts that
  \<open>load_data\<close> reads from the database, and the series that are drawn. \<open>ORDER BY run_at\<close> compares
  text by character codes (SQLite's BINARY collation); rows that tie, which are those of one save,
  and rows read without an order come in rowid order, as SQLite returns them.
\<close>

section \<open>Releases\<close>

definition after_v :: "string \<Rightarrow> string" where
  "after_v version =
     (case partition_on CHR ''v'' version of (a, sep, b) \<Rightarrow> if sep = [] then version else b)"

fun remove_first :: "char \<Rightarrow> nat \<Rightarrow> string \<Rightarrow> string" where
  "remove_first c 0 s = s"
| "remove_first c (Suc n) [] = []"
| "remove_first c (Suc n) (x # xs) = (if x = c then remove_first c n xs else x # remove_first c (Suc n) xs)"

text \<open>\<open>re.match(r'^v\d+\.\d+', version)\<close> on ASCII text\<close>

definition version_match :: "string \<Rightarrow> bool" where
  "version_match s =
     (case s of
        [] \<Rightarrow> False
      | c # cs \<Rightarrow> c = CHR ''v'' \<and> takeWhile is_digit cs \<noteq> [] \<and>
          (case dropWhile is_digit cs of
             d # e # _ \<Rightarrow> d = CHR ''.'' \<and> is_digit e
           | _ \<Rightarrow> False))"

definition is_exact_tag :: "string \<Rightarrow> bool" where
  "is_exact_tag version \<longleftrightarrow>
     version_match version \<and> CHR ''-'' \<notin> set (remove_first CHR ''.'' 2 (after_v version))"

section \<open>Loading\<close>

definition plot_pct :: "rat list \<Rightarrow> int \<Rightarrow> rat res" where
  "plot_pct values p =
     (if values = [] then Inr 0
      else let s = sort values; idx = fl (of_int ((int (length s) - 1) * p) / 100);
               lo = py_trunc idx; hi = min (py_trunc idx + 1) (int (length s) - 1)
           in res_bind (list_index s lo) (\<lambda>a.
              res_bind (list_index s hi) (\<lambda>b.
                Inr (py_add a (py_mul (py_sub b a) (py_sub idx (of_int lo)))))))"

definition SCENARIO_KIND :: "(string, string) dict" where
  "SCENARIO_KIND =
     [(''add'', ''ack_total''), (''cancel'', ''cancel_total''), (''match'', ''fill_total''),
      (''mixed'', ''cancel_total'')]"

definition int_kind :: "string \<Rightarrow> string" where
  "int_kind sc = (case map_of SCENARIO_KIND sc of Some k \<Rightarrow> k | None \<Rightarrow> ''ack_total'')"

record hist_entry =
  he_rtt_p50 :: rat
  he_rtt_p99 :: rat
  he_int_p50 :: "rat option"
  he_ops_sec :: rat

definition load_entry :: "bench_db \<Rightarrow> run_row \<Rightarrow> hist_entry res" where
  "load_entry db run =
     (let rtt_vals = samples_of db (run_id run) ''rtt'';
          int_vals = samples_of db (run_id run) (int_kind (run_scn run))
      in res_bind (if rtt_vals \<noteq> [] then py_div (py_sum rtt_vals) (of_nat (length rtt_vals)) else Inr 0) (\<lambda>mean.
         res_bind (plot_pct rtt_vals 50) (\<lambda>p50.
         res_bind (plot_pct rtt_vals 99) (\<lambda>p99.
         res_bind (if int_vals \<noteq> [] then res_bind (plot_pct int_vals 50) (\<lambda>x. Inr (Some x)) else Inr None) (\<lambda>ip50.
         res_bind (if mean \<noteq> 0 then py_div 1000000 mean else Inr 0) (\<lambda>ops.
           Inr \<lparr>he_rtt_p50 = p50, he_rtt_p99 = p99, he_int_p50 = ip50, he_ops_sec = ops\<rparr>))))))"

type_synonym history = "(string, (string, hist_entry) dict) dict"

definition get_scenario :: "history \<Rightarrow> string \<Rightarrow> (string, hist_entry) dict" where
  "get_scenario data sc = (case map_of data sc of Some d \<Rightarrow> d | None \<Rightarrow> [])"

text \<open>The loop of \<open>load_data\<close>; \<open>data.setdefault(sc, {})[ver] = entry\<close>.\<close>

fun load_runs :: "bench_db \<Rightarrow> run_row list \<Rightarrow> history \<times> string list \<Rightarrow> (history \<times> string list) res" where
  "load_runs db [] acc = Inr acc"
| "load_runs db (run # runs) (data, order) =
     (if \<not> is_exact_tag (run_version run) then load_runs db runs (data, order)
      else res_bind (load_entry db run) (\<lambda>entry.
        load_runs db runs
          (AList.update (run_scn run)
             (AList.update (run_version run) entry (get_scenario data (run_scn run))) data,
           if run_version run \<in> set order then order else order @ [run_version run])))"

definition load_data :: "bench_db \<Rightarrow> (history \<times> string list) res" where
  "load_data db = load_runs db (sort_key run_at (db_runs db)) ([], [])"

section \<open>Series\<close>

definition PLOT_SCENARIOS :: "string list" where
  "PLOT_SCENARIOS = [''add'', ''cancel'', ''match'', ''mixed'']"

definition series_versions :: "history \<Rightarrow> string list \<Rightarrow> string \<Rightarrow> string list" where
  "series_versions data order sc = filter (\<lambda>v. v \<in> set (map fst (get_scenario data sc))) order"

definition series :: "(hist_entry \<Rightarrow> 'a) \<Rightarrow> history \<Rightarrow> string list \<Rightarrow> string \<Rightarrow> (string \<times> 'a) list" where
  "series f data order sc =
     map (\<lambda>v. (v, f (the (map_of (get_scenario data sc) v)))) (series_versions data order sc)"

text \<open>
  The lines of \<open>_plot_trend_p50\<close> and \<open>_plot_trend_ops\<close>: a label and its points. A missing
  internal percentile (\<open>nan\<close>) is \<open>None\<close>; the internal line is drawn if some version has one.
\<close>

definition trend_p50 :: "history \<Rightarrow> string list \<Rightarrow> (string \<times> (string \<times> rat option) list) list" where
  "trend_p50 data order =
     concat (map (\<lambda>sc.
       if sc \<notin> set (map fst data) then []
       else (sc @ '' RTT'', series (\<lambda>e. Some (he_rtt_p50 e)) data order sc) #
            (let ints = series he_int_p50 data order sc
             in if list_ex (\<lambda>p. snd p \<noteq> None) ints then [(sc @ '' internal'', ints)] else []))
       PLOT_SCENARIOS)"

definition trend_ops :: "history \<Rightarrow> string list \<Rightarrow> (string \<times> (string \<times> rat) list) list" where
  "trend_ops data order =
     concat (map (\<lambda>sc. if sc \<notin> set (map fst data) then [] else [(sc, series he_ops_sec data order sc)])
       PLOT_SCENARIOS)"

section \<open>Which versions are releases\<close>

lemma set_remove_first: "x \<noteq> c \<Longrightarrow> x \<in> set (remove_first c n s) \<longleftrightarrow> x \<in> set s"
  by (induction c n s rule: remove_first.induct) auto

lemma version_match_iff:
  "version_match s \<longleftrightarrow> (\<exists>a d rest. s = CHR ''v'' # a @ CHR ''.'' # d # rest \<and> a \<noteq> [] \<and> list_all is_digit a \<and> is_digit d)"
  (is "_ \<longleftrightarrow> ?rhs")
proof
  assume m: "version_match s"
  then obtain cs where s: "s = CHR ''v'' # cs" "takeWhile is_digit cs \<noteq> []"
    by (auto simp: version_match_def split: list.splits)
  with m obtain d rest where "dropWhile is_digit cs = CHR ''.'' # d # rest" "is_digit d"
    by (auto simp: version_match_def split: list.splits)
  then show ?rhs
    using s takeWhile_dropWhile_id [of is_digit cs]
    by (intro exI [of _ "takeWhile is_digit cs"] exI [of _ d] exI [of _ rest])
       (auto simp: list_all_iff dest: set_takeWhileD)
next
  assume ?rhs
  then obtain a d rest where s: "s = CHR ''v'' # a @ CHR ''.'' # d # rest" "a \<noteq> []" "list_all is_digit a" "is_digit d"
    by blast
  have "takeWhile is_digit (a @ CHR ''.'' # d # rest) = a" "dropWhile is_digit (a @ CHR ''.'' # d # rest) = CHR ''.'' # d # rest"
    using s(3) by (simp_all add: list_all_iff takeWhile_append2 dropWhile_append2)
  then show "version_match s" using s by (simp add: version_match_def)
qed

text \<open>
  The trend charts contain the releases and only them: a version counts exactly when it is a
  \<open>v\<close>, a number, a dot, a digit and a rest without a dash, so what \<open>git describe\<close> reports for an
  untagged commit, a tag followed by a dash and more, never counts, whatever the tag.
\<close>

theorem is_exact_tag_releases:
  "(is_exact_tag s \<longleftrightarrow> (\<exists>a d rest. s = CHR ''v'' # a @ CHR ''.'' # d # rest \<and> a \<noteq> [] \<and> list_all is_digit a \<and>
      is_digit d \<and> CHR ''-'' \<notin> set rest)) \<and>
   \<not> is_exact_tag (tag @ CHR ''-'' # rest')"
proof
  have v: "after_v (CHR ''v'' # x) = x" for x by (simp add: after_v_def partition_on_def)
  have dash: "CHR ''-'' \<notin> set a \<and> CHR ''-'' \<noteq> d" if "list_all is_digit a" "is_digit d" for a d
    using that by (auto simp: list_all_iff is_digit_def)
  show "is_exact_tag s \<longleftrightarrow> (\<exists>a d rest. s = CHR ''v'' # a @ CHR ''.'' # d # rest \<and> a \<noteq> [] \<and> list_all is_digit a \<and>
      is_digit d \<and> CHR ''-'' \<notin> set rest)"
  proof
    assume "is_exact_tag s"
    then obtain a d rest where s: "s = CHR ''v'' # a @ CHR ''.'' # d # rest" "a \<noteq> []" "list_all is_digit a" "is_digit d"
        and m: "CHR ''-'' \<notin> set (remove_first CHR ''.'' 2 (after_v s))"
      by (auto simp: is_exact_tag_def version_match_iff)
    then have "CHR ''-'' \<notin> set rest" by (simp add: v set_remove_first)
    then show "\<exists>a d rest. s = CHR ''v'' # a @ CHR ''.'' # d # rest \<and> a \<noteq> [] \<and> list_all is_digit a \<and>
      is_digit d \<and> CHR ''-'' \<notin> set rest" using s by blast
  next
    assume "\<exists>a d rest. s = CHR ''v'' # a @ CHR ''.'' # d # rest \<and> a \<noteq> [] \<and> list_all is_digit a \<and>
      is_digit d \<and> CHR ''-'' \<notin> set rest"
    then obtain a d rest where s: "s = CHR ''v'' # a @ CHR ''.'' # d # rest" "a \<noteq> []" "list_all is_digit a" "is_digit d"
        and m: "CHR ''-'' \<notin> set rest" by blast
    then have "CHR ''-'' \<notin> set (remove_first CHR ''.'' 2 (after_v s))"
      using dash [OF s(3,4)] by (simp add: v set_remove_first)
    then show "is_exact_tag s" using s version_match_iff [of s] by (auto simp: is_exact_tag_def)
  qed
  show "\<not> is_exact_tag (tag @ CHR ''-'' # rest')"
  proof
    assume e: "is_exact_tag (tag @ CHR ''-'' # rest')"
    then obtain x where "tag @ CHR ''-'' # rest' = CHR ''v'' # x" "CHR ''-'' \<notin> set x"
      by (auto simp: is_exact_tag_def version_match_iff v set_remove_first)
    then show False by (cases tag) auto
  qed
qed

section \<open>What is loaded\<close>

lemma load_runs_append:
  "load_runs db (xs @ ys) acc = res_bind (load_runs db xs acc) (load_runs db ys)"
proof (induction xs arbitrary: acc)
  case (Cons x xs)
  obtain data order where "acc = (data, order)" by (cases acc)
  then show ?case using Cons by (cases "load_entry db x") simp_all
qed (cases acc, simp)

lemma load_runs_total:
  "(\<And>run. run \<in> set runs \<Longrightarrow> \<exists>e. load_entry db run = Inr e) \<Longrightarrow> \<exists>r. load_runs db runs acc = Inr r"
proof (induction runs arbitrary: acc)
  case (Cons run runs)
  obtain data order where acc: "acc = (data, order)" by (cases acc)
  obtain e where "load_entry db run = Inr e" using Cons.prems [of run] by auto
  moreover have "\<exists>r. load_runs db runs acc' = Inr r" for acc' using Cons by simp
  ultimately show ?case by (simp add: acc)
qed (cases acc, simp)

lemma get_scenario_update:
  "get_scenario (AList.update k d data) sc = (if sc = k then d else get_scenario data sc)"
  by (simp add: get_scenario_def map_of_update)

lemma load_runs_other:
  "load_runs db runs (data, order) = Inr (data', order') \<Longrightarrow>
   (\<And>run. run \<in> set runs \<Longrightarrow> \<not> (run_scn run = sc \<and> run_version run = v)) \<Longrightarrow>
   map_of (get_scenario data' sc) v = map_of (get_scenario data sc) v \<and> set order \<subseteq> set order'"
proof (induction runs arbitrary: data order)
  case (Cons run runs)
  show ?case
  proof (cases "is_exact_tag (run_version run)")
    case True
    then obtain e where e: "load_entry db run = Inr e" using Cons.prems(1) by (auto simp: res_bind_Inr)
    let ?d = "AList.update (run_scn run) (AList.update (run_version run) e (get_scenario data (run_scn run))) data"
    let ?o = "if run_version run \<in> set order then order else order @ [run_version run]"
    have "load_runs db runs (?d, ?o) = Inr (data', order')" using Cons.prems(1) True e by simp
    from Cons.IH [OF this] Cons.prems(2)
    have "map_of (get_scenario data' sc) v = map_of (get_scenario ?d sc) v \<and> set ?o \<subseteq> set order'" by simp
    moreover have "map_of (get_scenario ?d sc) v = map_of (get_scenario data sc) v"
      using Cons.prems(2) [of run] by (auto simp: get_scenario_update)
    ultimately show ?thesis by (auto split: if_splits)
  next
    case False
    then show ?thesis using Cons by simp
  qed
qed simp

lemma load_runs_one:
  assumes "load_runs db (xs @ run # ys) ([], []) = Inr (data, order)" "is_exact_tag (run_version run)"
    and "\<And>r. r \<in> set ys \<Longrightarrow> \<not> (run_scn r = run_scn run \<and> run_version r = run_version run)"
  shows "\<exists>e. load_entry db run = Inr e \<and>
    map_of (get_scenario data (run_scn run)) (run_version run) = Some e \<and> run_version run \<in> set order"
proof -
  obtain d1 o1 where 1: "load_runs db (run # ys) (d1, o1) = Inr (data, order)"
    using assms(1) by (auto simp: load_runs_append res_bind_Inr)
  then obtain e where e: "load_entry db run = Inr e" using assms(2) by (auto simp: res_bind_Inr)
  let ?d = "AList.update (run_scn run) (AList.update (run_version run) e (get_scenario d1 (run_scn run))) d1"
  let ?o = "if run_version run \<in> set o1 then o1 else o1 @ [run_version run]"
  have "load_runs db ys (?d, ?o) = Inr (data, order)" using 1 e assms(2) by simp
  from load_runs_other [OF this assms(3)]
  have "map_of (get_scenario data (run_scn run)) (run_version run) =
      map_of (get_scenario ?d (run_scn run)) (run_version run)" "set ?o \<subseteq> set order" by auto
  then show ?thesis using e by (auto simp: get_scenario_update split: if_splits)
qed

lemma plot_pct_bench: "plot_pct = bench_pct"
  by (simp add: fun_eq_iff plot_pct_def bench_pct_def)

lemma pct_total: "length xs \<le> 2 ^ 32 \<Longrightarrow> 0 \<le> p \<Longrightarrow> p \<le> 100 \<Longrightarrow> \<exists>x. bench_pct xs p = Inr x"
proof (cases "xs = []")
  case True
  then show ?thesis by (simp add: bench_pct_def)
next
  case False
  assume "length xs \<le> 2 ^ 32" "0 \<le> p" "p \<le> 100"
  with False show ?thesis by (intro bench_pct_total) (simp_all add: sized_def)
qed

lemma load_entry_total:
  assumes "length (db_samples db) \<le> 2 ^ 32"
  shows "\<exists>e. load_entry db run = Inr e"
proof -
  have "length (samples_of db rid kind) \<le> 2 ^ 32" for rid kind
    using order_trans [OF length_filter_le assms] by (simp add: samples_of_def)
  then have pcts: "\<exists>x. bench_pct (samples_of db rid kind) p = Inr x" if "0 \<le> p" "p \<le> 100" for rid kind p
    using that by (intro pct_total) simp_all
  have "\<exists>x. bench_pct (samples_of db (run_id run) ''rtt'') 50 = Inr x"
    "\<exists>x. bench_pct (samples_of db (run_id run) ''rtt'') 99 = Inr x"
    "\<exists>x. bench_pct (samples_of db (run_id run) (int_kind (run_scn run))) 50 = Inr x"
    by (rule pcts; simp)+
  then obtain a b d where "bench_pct (samples_of db (run_id run) ''rtt'') 50 = Inr a"
    "bench_pct (samples_of db (run_id run) ''rtt'') 99 = Inr b"
    "bench_pct (samples_of db (run_id run) (int_kind (run_scn run))) 50 = Inr d" by blast
  then show ?thesis
    by (simp only: load_entry_def Let_def guarded_div plot_pct_bench res_bind_simps)
       (cases "samples_of db (run_id run) (int_kind (run_scn run)) = []"; simp)
qed

lemma load_entry_stored:
  assumes "samples_of db (run_id run) ''rtt'' = sr_rtt r" "compute_stats (sr_rtt r) = Inr (sr_rtt_stats r)"
    and "load_entry db run = Inr e"
  shows "he_rtt_p50 e = bst_p50 (sr_rtt_stats r) \<and> he_rtt_p99 e = bst_p99 (sr_rtt_stats r) \<and>
    he_ops_sec e = bst_ops_sec (sr_rtt_stats r)"
proof -
  obtain a b c where "bench_pct (sr_rtt r) 50 = Inr a" "bench_pct (sr_rtt r) 95 = Inr b" "bench_pct (sr_rtt r) 99 = Inr c"
    "sr_rtt_stats r = \<lparr>bst_n = length (sr_rtt r), bst_mean = py_mean (sr_rtt r), bst_p50 = a, bst_p95 = b,
       bst_p99 = c, bst_max = (if sr_rtt r \<noteq> [] then Max (set (sr_rtt r)) else 0),
       bst_ops_sec = ops_per_sec (py_mean (sr_rtt r))\<rparr>"
    using assms(2) by (auto simp: compute_stats_def Let_def guarded_div res_bind_Inr)
  with assms(1,3) show ?thesis
    by (auto simp: load_entry_def Let_def guarded_div plot_pct_bench res_bind_Inr)
qed

lemma example_stats: "compute_stats [5] = Inr example_stats"
  by code_simp

lemma saved_then_loaded:
  assumes "db_ok db" "saved_version git_describe override = Inr v" "git_head = Inr h" "is_exact_tag v"
    and "distinct (map fst results)" "\<And>nr. nr \<in> set results \<Longrightarrow> compute_stats (sr_rtt (snd nr)) = Inr (sr_rtt_stats (snd nr))"
    and "save_results git_describe git_head ts override results db = Inr db'" "length (db_samples db') \<le> 2 ^ 32"
  shows "\<exists>data order. load_data db' = Inr (data, order) \<and>
    (\<forall>(name, r) \<in> set results. v \<in> set order \<and>
       (\<exists>e. map_of (get_scenario data name) v = Some e \<and> he_rtt_p50 e = bst_p50 (sr_rtt_stats r) \<and>
          he_rtt_p99 e = bst_p99 (sr_rtt_stats r) \<and> he_ops_sec e = bst_ops_sec (sr_rtt_stats r)))"
proof -
  let ?own = "filter (\<lambda>r. run_version r = v) (db_runs db')" and ?sorted = "sort_key run_at (db_runs db')"
  obtain data order where load: "load_runs db' ?sorted ([], []) = Inr (data, order)"
    using load_runs_total [of ?sorted db' "([], [])"] load_entry_total [OF assms(8)] by fastforce
  have ok: "db_ok db'" and own: "list_all2 (stores db' ts v (strip h)) ?own results"
    using save_effect [OF assms(1-3), of ts results] assms(7) by auto
  have "v \<in> set order \<and> (\<exists>e. map_of (get_scenario data (fst nr)) v = Some e \<and> he_rtt_p50 e = bst_p50 (sr_rtt_stats (snd nr)) \<and>
      he_rtt_p99 e = bst_p99 (sr_rtt_stats (snd nr)) \<and> he_ops_sec e = bst_ops_sec (sr_rtt_stats (snd nr)))"
    if nr: "nr \<in> set results" for nr
  proof -
    obtain i where i: "i < length results" "nr = results ! i" using nr by (auto simp: in_set_conv_nth)
    let ?run = "?own ! i"
    have st: "stores db' ts v (strip h) (?own ! k) (results ! k)" "k < length ?own" if "k < length results" for k
      using own that by (auto simp: list_all2_conv_all_nth)
    have run: "stores db' ts v (strip h) ?run nr" "?run \<in> set ?own"
      using st(1) [OF i(1)] i(2) nth_mem [OF st(2) [OF i(1)]] by blast+
    have unique: "r = ?run" if r: "r \<in> set (db_runs db')" "run_scn r = run_scn ?run" "run_version r = run_version ?run" for r
    proof -
      have "r \<in> set ?own" using r run by (simp add: stores_def)
      then obtain k where "k < length ?own" "r = ?own ! k" by (metis in_set_conv_nth)
      then have k: "k < length results" "r = ?own ! k" using list_all2_lengthD [OF own] by simp_all
      then have "fst (results ! k) = fst (results ! i)" using st(1) [OF k(1)] run(1) r(2) i by (simp add: stores_def)
      then have "k = i" using assms(5) k(1) i(1) by (simp add: distinct_conv_nth) metis
      then show ?thesis using k by simp
    qed
    have "distinct (db_runs db')" using ok by (auto simp: db_ok_def distinct_map)
    then have dist: "distinct ?sorted" by simp
    have "?run \<in> set ?sorted" using run(2) by simp
    then obtain xs ys where split: "?sorted = xs @ ?run # ys" by (metis split_list)
    have "\<not> (run_scn r = run_scn ?run \<and> run_version r = run_version ?run)" if "r \<in> set ys" for r
    proof
      assume "run_scn r = run_scn ?run \<and> run_version r = run_version ?run"
      moreover have "r \<in> set ?sorted" using that split by simp
      then have "r \<in> set (db_runs db')" by simp
      ultimately have "r = ?run" using unique by blast
      then show False using that dist split by simp
    qed
    moreover have "is_exact_tag (run_version ?run)" "run_version ?run = v" "run_scn ?run = fst nr"
      using run(1) assms(4) by (auto simp: stores_def)
    ultimately obtain e where "load_entry db' ?run = Inr e" "map_of (get_scenario data (fst nr)) v = Some e" "v \<in> set order"
      using load_runs_one [OF load [unfolded split]] by auto
    moreover have "samples_of db' (run_id ?run) ''rtt'' = sr_rtt (snd nr)" using run(1) by (simp add: stores_def kinds_of_def)
    ultimately show ?thesis using load_entry_stored [OF _ assms(6) [OF nr]] by blast
  qed
  then show ?thesis using load by (auto simp: load_data_def)
qed



end
