(* ===== verification/PlotCharts.thy ===== *)
theory PlotCharts
  imports PlotHistory PyChart PyArgs
begin

text \<open>
  The two figures of \<open>bench/plot_history.py\<close> and its two entry points, \<open>generate_charts\<close> and the
  command line of \<open>main\<close>. The databases are a function from paths.
\<close>

section \<open>Figures\<close>

definition trend_p50_figure :: "history \<Rightarrow> string list \<Rightarrow> figure" where
  "trend_p50_figure data order =
     \<lparr>fig_title = ''fix-exchange '' @ DASH @ '' p50 Latency by Version'', fig_xlabel = ''Version'',
      fig_ylabel = ''p50 Latency ('' @ MU @ ''s)'',
      fig_marks = map (\<lambda>(l, pts). Series l pts) (trend_p50 data order), fig_ylim = None\<rparr>"

definition trend_ops_figure :: "history \<Rightarrow> string list \<Rightarrow> figure" where
  "trend_ops_figure data order =
     \<lparr>fig_title = ''fix-exchange '' @ DASH @ '' Throughput by Version'', fig_xlabel = ''Version'',
      fig_ylabel = ''ops / sec'',
      fig_marks = map (\<lambda>(l, pts). Series l (map (\<lambda>(v, x). (v, Some x)) pts)) (trend_ops data order),
      fig_ylim = None\<rparr>"

definition plot_trend_p50 :: "bool \<Rightarrow> history \<Rightarrow> string list \<Rightarrow> string \<Rightarrow> shown list" where
  "plot_trend_p50 installed data order out_dir =
     (if \<not> installed then [Printed (''matplotlib not installed '' @ DASH @ '' skipping trend charts'')]
      else save_figure (path_join out_dir ''trend_p50.png'') (trend_p50_figure data order))"

definition plot_trend_ops :: "bool \<Rightarrow> history \<Rightarrow> string list \<Rightarrow> string \<Rightarrow> shown list" where
  "plot_trend_ops installed data order out_dir =
     (if \<not> installed then []
      else save_figure (path_join out_dir ''trend_ops.png'') (trend_ops_figure data order))"

section \<open>Entry points\<close>

definition generate_charts ::
  "(string \<Rightarrow> bench_db option) \<Rightarrow> bool \<Rightarrow> string \<Rightarrow> string \<Rightarrow> shown list res" where
  "generate_charts dbs installed db_path out_dir =
     (case dbs db_path of
        None \<Rightarrow> Inr [Printed (''  Skipping trend charts: '' @ db_path @ '' not found'')]
      | Some db \<Rightarrow> res_bind (load_data db) (\<lambda>(data, order).
          if data = [] then Inr [Printed (''  No tagged versions in DB yet '' @ DASH @ '' trend charts skipped'')]
          else Inr (Printed (''  '' @ str_nat (length order) @ '' version(s) in history: '' @ join '', '' order) #
                    plot_trend_p50 installed data order out_dir @ plot_trend_ops installed data order out_dir)))"

definition PLOT_OPTIONS :: opt_spec where
  "PLOT_OPTIONS = [(''--db'', OptStr), (''--out'', OptStr)]"

definition plot_main :: "(string \<Rightarrow> bench_db option) \<Rightarrow> bool \<Rightarrow> string list \<Rightarrow> shown list res" where
  "plot_main dbs installed argv =
     res_bind (parse_args PLOT_OPTIONS argv) (\<lambda>args.
       let db_path = arg_str args ''--db'' ''bench/results.db''; out_dir = arg_str args ''--out'' ''bench/bench_results''
       in case dbs db_path of
            None \<Rightarrow> Inr [Printed (''ERROR: '' @ db_path @ '' not found.''),
                         Printed (''       Run '' @ [CHR 0x27] @ ''python3 bench/bench.py --save'' @ [CHR 0x27] @ '' first.'')]
          | Some db \<Rightarrow> res_bind (load_data db) (\<lambda>(data, order).
              Inr (Printed (''Reading '' @ db_path @ '' '' @ ELLIPSIS) #
                (if data = []
                 then [Printed ''No exact-tag versions found. Run --save on a tagged commit first.'']
                 else Printed (''Found '' @ str_nat (sum_list (map (\<lambda>(_, d). length d) data)) @ '' run(s) across '' @
                        str_nat (length order) @ '' version(s): '' @ join '', '' order) #
                      plot_trend_p50 installed data order out_dir @ plot_trend_ops installed data order out_dir))))"

section \<open>What is loaded is plotted\<close>

lemma series_point:
  "map_of (get_scenario data sc) v = Some e \<Longrightarrow> v \<in> set order \<Longrightarrow> (v, f e) \<in> set (series f data order sc)"
  by (force simp: series_def series_versions_def dest: map_of_SomeD)

lemma plotted_points:
  assumes "map_of (get_scenario data sc) v = Some e" "v \<in> set order" "sc \<in> set PLOT_SCENARIOS"
  shows "\<exists>pts. Series (sc @ '' RTT'') pts \<in> set (fig_marks (trend_p50_figure data order)) \<and> (v, Some (he_rtt_p50 e)) \<in> set pts"
    "\<exists>pts. Series sc pts \<in> set (fig_marks (trend_ops_figure data order)) \<and> (v, Some (he_ops_sec e)) \<in> set pts"
proof -
  have sc: "sc \<in> set (map fst data)"
    using assms(1) by (force simp: get_scenario_def split: option.splits dest: map_of_SomeD)
  show "\<exists>pts. Series (sc @ '' RTT'') pts \<in> set (fig_marks (trend_p50_figure data order)) \<and> (v, Some (he_rtt_p50 e)) \<in> set pts"
    using assms(3) sc series_point [OF assms(1,2), of "\<lambda>e. Some (he_rtt_p50 e)"]
    by (intro exI [of _ "series (\<lambda>e. Some (he_rtt_p50 e)) data order sc"])
       (auto simp: trend_p50_figure_def trend_p50_def intro!: rev_image_eqI bexI [of _ sc])
  show "\<exists>pts. Series sc pts \<in> set (fig_marks (trend_ops_figure data order)) \<and> (v, Some (he_ops_sec e)) \<in> set pts"
    using assms(3) sc series_point [OF assms(1,2), of he_ops_sec]
    by (intro exI [of _ "map (\<lambda>(v, x). (v, Some x)) (series he_ops_sec data order sc)"])
       (force simp: trend_ops_figure_def trend_ops_def)
qed

text \<open>
  The documented option \<open>--kind\<close> does not exist: a command line that begins with it, with or
  without a value, ends the program before any database is opened. The options that exist are
  read as written: with \<open>--db=path\<close> it is the database at that path that has to be there.
\<close>

theorem plot_kind_rejected:
  "plot_main dbs installed (''--kind'' # rest) = Inl SystemExit \<and>
   plot_main dbs installed ((''--kind='' @ k) # rest) = Inl SystemExit \<and>
   (\<exists>l. plot_main (dbs(path := None)) installed [''--db='' @ path] =
      Inr [Printed (''ERROR: '' @ path @ '' not found.''), Printed l])"
proof (intro conjI)
  have "classify (with_help PLOT_OPTIONS) ''--kind'' = Rejected" by code_simp
  then have "parse_args PLOT_OPTIONS (''--kind'' # rest) = Inl SystemExit" by (simp only: parse_args_def parse_opts.simps arg_class.case)
  then show "plot_main dbs installed (''--kind'' # rest) = Inl SystemExit" by (simp only: plot_main_def res_bind_simps)
next
  have "classify (with_help PLOT_OPTIONS) (''--kind='' @ k) \<in> {Plain, Rejected}"
    by (simp add: classify_def with_help_def PLOT_OPTIONS_def partition_on_def option_candidates_def negative_number_def
        is_digit_def Let_def)
  then have "parse_args PLOT_OPTIONS ((''--kind='' @ k) # rest) = Inl SystemExit"
    by (auto simp only: parse_args_def parse_opts.simps insert_iff empty_iff arg_class.case)
  then show "plot_main dbs installed ((''--kind='' @ k) # rest) = Inl SystemExit" by (simp only: plot_main_def res_bind_simps)
next
  have "classify (with_help PLOT_OPTIONS) (''--db='' @ path) = Opt ''--db'' OptStr (Some path)"
    by (simp add: classify_def with_help_def PLOT_OPTIONS_def partition_on_def Let_def)
  then have "parse_args PLOT_OPTIONS [''--db='' @ path] = Inr [(''--db'', AStr path)]"
    by (simp only: parse_args_def parse_opts.simps arg_class.case opt_kind.distinct if_False option.case convert_def
        opt_kind.case res_bind_simps AList.update.simps)
  then show "\<exists>l. plot_main (dbs(path := None)) installed [''--db='' @ path] =
      Inr [Printed (''ERROR: '' @ path @ '' not found.''), Printed l]"
    by (simp add: plot_main_def arg_str_def Let_def del: append.simps)
qed

end
