(* ===== verification/CliClient.thy ===== *)
theory CliClient
  imports FixClient PyState PyArgs
begin

text \<open>
  \<open>tools/client.py\<close>, the interactive client: its session on top of \<open>FixSession\<close> of
  \<open>tests/helpers.py\<close>, the command parser, the table of placed orders, the printed lines and the
  command loop. \<open>FixSession\<close> has the state of the UI's session and the same \<open>send\<close> and \<open>recv\<close>,
  whose socket always has a timeout; they are used here. \<open>now\<close> gives the readings of the clock:
  for the message with sequence number \<open>n\<close>, \<open>2 n\<close> is its transaction time and \<open>2 n + 1\<close> the time
  in its header. Where a number the user or the exchange writes is not finite (\<open>inf\<close>, \<open>nan\<close>) the
  model stops with \<open>NonFinite\<close>.
\<close>

section \<open>Labels\<close>

definition EXEC_TYPE :: "(string, string) dict" where
  "EXEC_TYPE = [(''0'', ''NEW''), (''1'', ''PART-FILL''), (''2'', ''FILLED''), (''4'', ''CANCELED''), (''8'', ''REJECTED'')]"

definition SIDE_LABEL :: "(string, string) dict" where
  "SIDE_LABEL = [(''1'', ''BUY''), (''2'', ''SELL'')]"

section \<open>Session\<close>

record client_session =
  cs_fix :: AsyncFixSession
  cs_order_counter :: nat
  cs_cancel_counter :: nat
  cs_printed :: "string list"

type_synonym 'a client_prog = "(client_session, 'a) prog"

text \<open>
  \<open>FixSession.__init__(self, sender)\<close> called with positional arguments, and
  \<open>ClientSession.__init__\<close>, which passes none; \<open>incoming\<close> is what the connection delivers.
\<close>

definition FixSession_call :: "string list \<Rightarrow> AsyncFixSession res" where
  "FixSession_call args = (case args of [sender] \<Rightarrow> Inr (AsyncFixSession_init sender) | _ \<Rightarrow> Inl TypeError)"

definition ClientSession_init :: "net_event list res \<Rightarrow> client_session res" where
  "ClientSession_init incoming =
     res_bind (FixSession_call []) (\<lambda>fix.
     res_bind incoming (\<lambda>net.
       Inr \<lparr>cs_fix = fix\<lparr>afs_reader := net\<rparr>, cs_order_counter = 0, cs_cancel_counter = 0, cs_printed = []\<rparr>))"

definition client_send :: "(nat \<Rightarrow> string) \<Rightarrow> string \<Rightarrow> (string \<Rightarrow> (string \<times> string) list) \<Rightarrow> unit client_prog" where
  "client_send now msg_type body_at s =
     (let n = afs_seq (cs_fix s)
      in case AsyncFixSession_send (now (2 * n + 1)) msg_type (body_at (now (2 * n))) (cs_fix s) of
           (r, fix) \<Rightarrow> (r, s\<lparr>cs_fix := fix\<rparr>))"

definition client_recv :: "fix_msg client_prog" where
  "client_recv s = (case AsyncFixSession_recv True (cs_fix s) of (r, fix) \<Rightarrow> (r, s\<lparr>cs_fix := fix\<rparr>))"

definition print_line :: "string \<Rightarrow> unit client_prog" where
  "print_line l s = (Inr (), s\<lparr>cs_printed := cs_printed s @ [l]\<rparr>)"

definition next_order_id :: "string client_prog" where
  "next_order_id s =
     (Inr (''ORD-'' @ str_nat (cs_order_counter s + 1)), s\<lparr>cs_order_counter := cs_order_counter s + 1\<rparr>)"

subsection \<open>Printed lines\<close>

text \<open>\<open>f"@ {float(price):>8.2f}"\<close> with the question mark of a text that is no number.\<close>

definition price_str :: "string \<Rightarrow> string res" where
  "price_str price =
     (case py_float price of
        Inr x \<Rightarrow> Inr (''@ '' @ rjust 8 (fmt_fixed 2 x))
      | Inl e \<Rightarrow> if e = ValueError then Inr (''@ '' @ rjust 8 ''?'') else Inl e)"

definition exec_line :: "fix_msg \<Rightarrow> string res" where
  "exec_line msg =
     (let clord = msg_get msg ''11'' ''?''; symbol = msg_get msg ''55'' ''?'';
          side = dict_get SIDE_LABEL (msg_get msg ''54'' []) (msg_get msg ''54'' ''?'');
          qty = msg_get msg ''38'' ''?''; price = msg_get msg ''44'' (msg_get msg ''6'' ''0'');
          status = dict_get EXEC_TYPE (msg_get msg ''150'' []) (msg_get msg ''150'' ''?'')
      in res_bind (price_str price) (\<lambda>p.
           Inr (''[EXEC]  '' @ ljust 10 clord @ ''  '' @ ljust 6 symbol @ ''  '' @ ljust 5 side @ ''  '' @
                rjust 6 qty @ ''  '' @ p @ ''  '' @ status)))"

definition mktdata_line :: "fix_msg \<Rightarrow> string res" where
  "mktdata_line msg =
     (let symbol = msg_get msg ''55'' ''?''; px = msg_get msg ''270'' ''?''; sz = msg_get msg ''271'' ''?''
      in case py_float px of
           Inr x \<Rightarrow> Inr (''[MKTDATA] '' @ ljust 6 symbol @ ''  trade  '' @ sz @ '' @ '' @ fmt_fixed 2 x)
         | Inl e \<Rightarrow> if e = ValueError then Inr (''[MKTDATA] '' @ symbol @ ''  trade  '' @ sz @ '' @ '' @ px)
                    else Inl e)"

definition print_exec :: "fix_msg \<Rightarrow> unit client_prog" where
  "print_exec msg = seq_bind (lift_res (exec_line msg)) print_line"

definition print_mktdata :: "fix_msg \<Rightarrow> unit client_prog" where
  "print_mktdata msg = seq_bind (lift_res (mktdata_line msg)) print_line"

subsection \<open>Requests\<close>

definition order_body :: "string \<Rightarrow> string \<Rightarrow> string \<Rightarrow> int \<Rightarrow> rat option \<Rightarrow> string \<Rightarrow> (string \<times> string) list" where
  "order_body clord symbol side qty price ts =
     [(''11'', clord), (''21'', ''1''), (''55'', symbol), (''54'', side),
      (''40'', if price = None then ''1'' else ''2''), (''38'', str_int qty), (''60'', ts)] @
     (case price of None \<Rightarrow> [] | Some p \<Rightarrow> [(''44'', fmt_fixed 2 p)])"

definition order_cancel_body ::
  "string \<Rightarrow> string \<Rightarrow> nat \<Rightarrow> string \<Rightarrow> string \<Rightarrow> int \<Rightarrow> string \<Rightarrow> (string \<times> string) list" where
  "order_cancel_body clord xid n symbol side qty ts =
     [(''41'', clord), (''11'', xid @ ''-CXL'' @ str_nat n), (''55'', symbol), (''54'', side),
      (''38'', str_int qty), (''60'', ts)]"

definition send_order ::
  "(nat \<Rightarrow> string) \<Rightarrow> string \<Rightarrow> string \<Rightarrow> int \<Rightarrow> rat option \<Rightarrow> (string \<times> string) client_prog" where
  "send_order now symbol side qty price =
     seq_bind next_order_id (\<lambda>clord.
     seq_bind (client_send now ''D'' (order_body clord symbol side qty price)) (\<lambda>_.
     seq_bind client_recv (\<lambda>ack.
     seq_bind (print_exec ack) (\<lambda>_. ret (clord, msg_get ack ''37'' clord)))))"

definition send_cancel ::
  "(nat \<Rightarrow> string) \<Rightarrow> string \<Rightarrow> string \<Rightarrow> string \<Rightarrow> string \<Rightarrow> int \<Rightarrow> unit client_prog" where
  "send_cancel now clord xid symbol side qty s =
     (let n = cs_cancel_counter s + 1
      in client_send now ''F'' (order_cancel_body clord xid n symbol side qty) (s\<lparr>cs_cancel_counter := n\<rparr>))"

text \<open>
  The loop of \<open>recv_print\<close>; the timeout of the socket ends it. Every round that goes on takes a
  message off the stream.
\<close>

abbreviation cs_weight :: "client_session \<Rightarrow> nat" where
  "cs_weight s \<equiv> net_weight (afs_buf (cs_fix s)) (afs_reader (cs_fix s))"

definition show_message :: "fix_msg \<Rightarrow> unit client_prog" where
  "show_message msg =
     (let t = msg_get msg ''35'' []
      in if t \<in> set [''0'', ''1'', ''2'', ''5''] then ret ()
         else if t = ''8'' then print_exec msg
         else if t = ''X'' then print_mktdata msg else ret ())"

lemma show_message_fix: "show_message msg s = (r, s') \<Longrightarrow> cs_fix s' = cs_fix s"
  by (auto simp: show_message_def Let_def print_exec_def print_mktdata_def seq_bind_def print_line_def
      split: if_splits sum.splits)

lemma client_recv_weight: "client_recv s = (Inr msg, s') \<Longrightarrow> cs_weight s' < cs_weight s"
  by (auto simp: client_recv_def split: prod.splits elim!: AsyncFixSession_recv_Inr dest!: recv_loop_weight)

function recv_print :: "unit client_prog" where
  "recv_print s =
     (case client_recv s of
        (Inl e, s') \<Rightarrow> if e = TimeoutError then (Inr (), s') else (Inl e, s')
      | (Inr msg, s') \<Rightarrow>
          (case show_message msg s' of
             (Inl e, s'') \<Rightarrow> (Inl e, s'')
           | (Inr _, s'') \<Rightarrow> recv_print s''))"
  by pat_completeness auto
termination
  by (relation "measure cs_weight") (auto dest!: sym [THEN client_recv_weight] sym [THEN show_message_fix])

declare recv_print.simps [simp del]

section \<open>Commands\<close>

datatype command =
    NoCommand "string option"
  | Quit
  | Help
  | Order (cmd_symbol: string) (cmd_side: string) (cmd_qty: int) (cmd_price: "rat option")
  | Cancel string

definition order_usage :: "string \<Rightarrow> string" where
  "order_usage cmd = ''Usage: '' @ cmd @ '' <SYMBOL> <QTY> @ <PRICE>  or  '' @ cmd @ '' <SYMBOL> <QTY> market''"

definition parse_order :: "string \<Rightarrow> string list \<Rightarrow> command res" where
  "parse_order cmd tokens =
     (let side = (if cmd = ''buy'' then ''1'' else ''2'')
      in if length tokens < 3 then Inr (NoCommand (Some (order_usage cmd)))
         else let symbol = upper (tokens ! 1); rest = drop 3 tokens
              in case py_int (tokens ! 2) of
                   Inl e \<Rightarrow> if e = ValueError then Inr (NoCommand (Some (''Invalid quantity: '' @ tokens ! 2))) else Inl e
                 | Inr qty \<Rightarrow>
                     if rest = [] \<or> lower (hd rest) = ''market'' then Inr (Order symbol side qty None)
                     else if hd rest = ''@'' \<and> length rest = 2 then
                       (case py_float (rest ! 1) of
                          Inl e \<Rightarrow> if e = ValueError then Inr (NoCommand (Some (''Invalid price: '' @ rest ! 1))) else Inl e
                        | Inr price \<Rightarrow> Inr (Order symbol side qty (Some price)))
                     else Inr (NoCommand (Some (order_usage cmd))))"

definition parse_command :: "string \<Rightarrow> command res" where
  "parse_command line =
     (let tokens = split_ws (strip line)
      in if tokens = [] then Inr (NoCommand None)
         else let cmd = lower (hd tokens)
              in if cmd \<in> {''quit'', ''exit''} then Inr Quit
                 else if cmd = ''help'' then Inr Help
                 else if cmd = ''cancel'' then
                   (if length tokens \<noteq> 2 then Inr (NoCommand (Some ''Usage: cancel <ORDER-ID>''))
                    else Inr (Cancel (tokens ! 1)))
                 else if cmd \<in> {''buy'', ''sell''} then parse_order cmd tokens
                 else Inr (NoCommand (Some (''Unknown command '' @ [CHR 0x27] @ cmd @ [CHR 0x27] @
                        ''. Type '' @ [CHR 0x27] @ ''help'' @ [CHR 0x27] @ '' for commands.''))))"

section \<open>Placed orders\<close>

record tracked =
  tr_clord :: string
  tr_exchange :: string
  tr_symbol :: string
  tr_side :: string
  tr_qty :: int

type_synonym tracker = "(string, tracked) dict"

definition tracker_track :: "string \<Rightarrow> string \<Rightarrow> string \<Rightarrow> string \<Rightarrow> int \<Rightarrow> tracker \<Rightarrow> tracker" where
  "tracker_track xid clord symbol side qty orders =
     AList.update clord \<lparr>tr_clord = clord, tr_exchange = xid, tr_symbol = symbol, tr_side = side, tr_qty = qty\<rparr> orders"

definition tracker_get :: "tracker \<Rightarrow> string \<Rightarrow> tracked option" where
  "tracker_get orders clord = map_of orders clord"

definition tracker_remove :: "string \<Rightarrow> tracker \<Rightarrow> tracker" where
  "tracker_remove clord orders = AList.delete clord orders"

section \<open>The command loop\<close>

definition HELP_TEXT :: "string list" where
  "HELP_TEXT =
     [''Commands:'', ''  buy  <SYMBOL> <QTY> @ <PRICE>   limit buy'', ''  buy  <SYMBOL> <QTY> market      market buy'',
      ''  sell <SYMBOL> <QTY> @ <PRICE>   limit sell'', ''  sell <SYMBOL> <QTY> market      market sell'',
      ''  cancel <ORDER-ID>               cancel a resting order (e.g. ORD-3)'',
      ''  help                            show this message'', ''  quit / exit                     disconnect and exit'']"

definition unknown_order :: "string \<Rightarrow> string" where
  "unknown_order cid = ''  Unknown order '' @ [CHR 0x27] @ cid @ [CHR 0x27] @
     ''. Only orders placed in this session can be canceled.''"

text \<open>\<open>FixSession.logout\<close>: a logout, then one message or the timeout.\<close>

definition client_logout :: "(nat \<Rightarrow> string) \<Rightarrow> unit client_prog" where
  "client_logout now =
     seq_bind (client_send now ''5'' (\<lambda>_. [(''58'', ''Normal logout'')])) (\<lambda>_ s.
       case client_recv s of
         (Inr _, s') \<Rightarrow> (Inr (), s')
       | (Inl e, s') \<Rightarrow> if e = TimeoutError then (Inr (), s') else (Inl e, s'))"

text \<open>One command of the loop other than \<open>quit\<close>, with the table of orders after it.\<close>

fun run_command :: "(nat \<Rightarrow> string) \<Rightarrow> command \<Rightarrow> tracker \<Rightarrow> tracker client_prog" where
  "run_command now (NoCommand None) orders = ret orders"
| "run_command now (NoCommand (Some m)) orders = seq_bind (print_line (''  '' @ m)) (\<lambda>_. ret orders)"
| "run_command now Help orders = seq_bind (for_each print_line HELP_TEXT) (\<lambda>_. ret orders)"
| "run_command now Quit orders = ret orders"
| "run_command now (Order symbol side qty price) orders =
     seq_bind (send_order now symbol side qty price) (\<lambda>(clord, xid).
     seq_bind recv_print (\<lambda>_. ret (tracker_track xid clord symbol side qty orders)))"
| "run_command now (Cancel cid) orders =
     (case tracker_get orders cid of
        None \<Rightarrow> seq_bind (print_line (unknown_order cid)) (\<lambda>_. ret orders)
      | Some info \<Rightarrow>
          seq_bind (send_cancel now (tr_clord info) (tr_exchange info) (tr_symbol info) (tr_side info) (tr_qty info)) (\<lambda>_.
          seq_bind recv_print (\<lambda>_. ret (tracker_remove cid orders))))"

text \<open>\<open>None\<close> stands for an end of input or an interrupt, which is what follows the last line.\<close>

fun repl :: "(nat \<Rightarrow> string) \<Rightarrow> string option list \<Rightarrow> tracker \<Rightarrow> unit client_prog" where
  "repl now [] orders = seq_bind (print_line ''Disconnecting...'') (\<lambda>_. client_logout now)"
| "repl now (input # inputs) orders =
     seq_bind (lift_res (parse_command (case input of None \<Rightarrow> ''quit'' | Some line \<Rightarrow> line))) (\<lambda>cmd.
       if cmd = Quit then seq_bind (print_line ''Disconnecting...'') (\<lambda>_. client_logout now)
       else seq_bind (run_command now cmd orders) (repl now inputs))"

text \<open>\<open>logon\<close> of \<open>FixSession\<close>; the assertion that the answer is a Logon is an AssertionError.\<close>

definition client_logon :: "(nat \<Rightarrow> string) \<Rightarrow> unit client_prog" where
  "client_logon now =
     seq_bind (\<lambda>s. (Inr (), s\<lparr>cs_fix := (cs_fix s)\<lparr>afs_order_statuses := []\<rparr>\<rparr>)) (\<lambda>_.
     seq_bind (client_send now ''A'' (\<lambda>_. [(''98'', ''0''), (''108'', ''30'')])) (\<lambda>_.
     seq_bind client_recv (\<lambda>resp s.
       if msg_tag resp ''35'' \<noteq> Some ''A'' then (Inl AssertionError, s)
       else (case logon_drain (cs_fix s) of (r, fix) \<Rightarrow> (r, s\<lparr>cs_fix := fix\<rparr>)))))"

definition is_os_error :: "py_exc \<Rightarrow> bool" where
  "is_os_error e \<longleftrightarrow> e \<in> {OSError, ConnectionError, TimeoutError}"

definition client_main :: "(nat \<Rightarrow> string) \<Rightarrow> net_event list res \<Rightarrow> string option list \<Rightarrow> unit res" where
  "client_main now incoming inputs =
     (case ClientSession_init incoming of
        Inl e \<Rightarrow> if is_os_error e then Inl SystemExit else Inl e
      | Inr s \<Rightarrow>
          fst (seq_bind (client_logon now) (\<lambda>_.
               seq_bind (print_line ''[CONNECTED] Logon accepted.'') (\<lambda>_.
               seq_bind (print_line (''Type '' @ [CHR 0x27] @ ''help'' @ [CHR 0x27] @ '' for commands.'' @ [CHR 0x0A])) (\<lambda>_. repl now inputs []))) s))"

text \<open>The command line of \<open>main\<close>; \<open>incoming host port\<close> is what the connection to that address delivers.\<close>

definition CLIENT_OPTIONS :: opt_spec where
  "CLIENT_OPTIONS = [(''--host'', OptStr), (''--port'', OptInt)]"

definition client_cli ::
  "(nat \<Rightarrow> string) \<Rightarrow> (string \<Rightarrow> int \<Rightarrow> net_event list res) \<Rightarrow> string list \<Rightarrow> string option list \<Rightarrow> unit res" where
  "client_cli now incoming argv inputs =
     res_bind (parse_args CLIENT_OPTIONS argv) (\<lambda>args.
       client_main now (incoming (arg_str args ''--host'' ''127.0.0.1'') (arg_int args ''--port'' 5001)) inputs)"

section \<open>What the client puts on the wire\<close>

abbreviation wire :: "client_session \<Rightarrow> bytes list" where
  "wire s \<equiv> afs_writer (cs_fix s)"

definition sent_order :: "bytes \<Rightarrow> string \<Rightarrow> string \<Rightarrow> string \<Rightarrow> int \<Rightarrow> bool" where
  "sent_order m cid symbol side qty \<longleftrightarrow>
     (\<exists>ts seq price ts' sender. build_message ts ''D'' seq (order_body cid symbol side qty price ts') sender = Inr m)"

definition sent_cancel :: "bytes \<Rightarrow> string \<Rightarrow> string \<Rightarrow> string \<Rightarrow> int \<Rightarrow> bool" where
  "sent_cancel m cid symbol side qty \<longleftrightarrow>
     (\<exists>ts seq xid n ts' sender.
        build_message ts ''F'' seq (order_cancel_body cid xid n symbol side qty ts') sender = Inr m)"

definition sent_logout :: "bytes \<Rightarrow> bool" where
  "sent_logout m \<longleftrightarrow> (\<exists>ts seq sender. build_message ts ''5'' seq [(''58'', ''Normal logout'')] sender = Inr m)"

text \<open>
  Every message is an order, a logout, or the cancel of an order that went out before it, with the
  symbol, side and quantity of that order.
\<close>

definition justified :: "bytes list \<Rightarrow> bytes \<Rightarrow> bool" where
  "justified before m \<longleftrightarrow> sent_logout m \<or>
     (\<exists>cid symbol side qty. sent_order m cid symbol side qty) \<or>
     (\<exists>cid symbol side qty. sent_cancel m cid symbol side qty \<and> (\<exists>x \<in> set before. sent_order x cid symbol side qty))"

definition wire_ok :: "bytes list \<Rightarrow> bool" where
  "wire_ok ms \<longleftrightarrow> (\<forall>i < length ms. justified (take i ms) (ms ! i))"

definition tracker_ok :: "tracker \<Rightarrow> bytes list \<Rightarrow> bool" where
  "tracker_ok orders ms \<longleftrightarrow> (\<forall>cid info. map_of orders cid = Some info \<longrightarrow> tr_clord info = cid \<and>
     (\<exists>m \<in> set ms. sent_order m cid (tr_symbol info) (tr_side info) (tr_qty info)))"

lemma wire_ok_snoc: "wire_ok ms \<Longrightarrow> justified ms m \<Longrightarrow> wire_ok (ms @ [m])"
  by (auto simp: wire_ok_def nth_append less_Suc_eq)

lemma tracker_ok_mono: "tracker_ok orders ms \<Longrightarrow> tracker_ok orders (ms @ [m])"
  by (auto simp: tracker_ok_def)

lemma client_send_wire:
  assumes "client_send now mt f s = (r, s')"
  shows "(\<exists>e. r = Inl e \<and> wire s' = wire s) \<or>
    (\<exists>m ts seq sender ts'. r = Inr () \<and> wire s' = wire s @ [m] \<and> build_message ts mt seq (f ts') sender = Inr m)"
  using assms
  by (cases "build_message (now (2 * afs_seq (cs_fix s) + 1)) mt (afs_seq (cs_fix s)) (f (now (2 * afs_seq (cs_fix s))))
      (afs_sender (cs_fix s))")
     (auto simp: client_send_def Let_def AsyncFixSession_send_def)

lemma client_recv_wire [simp]: "client_recv s = (r, s') \<Longrightarrow> wire s' = wire s"
  by (auto simp: client_recv_def AsyncFixSession_recv_def split: prod.splits)

lemma print_line_wire: "print_line l s = (r, s') \<Longrightarrow> wire s' = wire s"
  by (auto simp: print_line_def)

lemma print_exec_wire: "print_exec m s = (r, s') \<Longrightarrow> wire s' = wire s"
  by (auto simp: print_exec_def seq_bind_def print_line_def split: sum.splits)

lemma recv_print_wire: "recv_print s = (r, s') \<Longrightarrow> wire s' = wire s"
proof (induction s arbitrary: r s' rule: recv_print.induct)
  case (1 s)
  obtain q u where u: "client_recv s = (q, u)" by (cases "client_recv s")
  show ?case
  proof (cases q)
    case (Inl e)
    then show ?thesis using 1(2) u by (auto simp: recv_print.simps [of s] split: if_splits)
  next
    case (Inr msg)
    obtain w v where v: "show_message msg u = (w, v)" by (cases "show_message msg u")
    then have "wire v = wire s" using u show_message_fix [OF v] by simp
    moreover have "recv_print s = (case w of Inl e \<Rightarrow> (Inl e, v) | Inr _ \<Rightarrow> recv_print v)"
      by (simp add: recv_print.simps [of s] u v Inr)
    ultimately show ?thesis
      using 1(2) 1(1) [OF u [symmetric, unfolded Inr] refl v [symmetric]] by (cases w) (auto dest: sym)
  qed
qed

lemma seq_bind_cases:
  assumes "seq_bind p f s = (r, s')"
  obtains e where "p s = (Inl e, s')" "r = Inl e" | x u where "p s = (Inr x, u)" "f x u = (r, s')"
  using assms by (auto simp: seq_bind_def split: prod.splits sum.splits)

lemma send_order_wire:
  assumes "send_order now symbol side qty price s = (r, s')"
  shows "wire s' = wire s \<and> (\<exists>e. r = Inl e) \<or>
    (\<exists>m cid. wire s' = wire s @ [m] \<and> sent_order m cid symbol side qty \<and> (\<forall>x. r = Inr x \<longrightarrow> fst x = cid))"
proof -
  obtain cid u where id: "next_order_id s = (Inr cid, u)" "wire u = wire s" by (simp add: next_order_id_def)
  obtain q v where v: "client_send now ''D'' (order_body cid symbol side qty price) u = (q, v)"
    by (cases "client_send now ''D'' (order_body cid symbol side qty price) u")
  define rest where "rest = (\<lambda>_ :: unit. seq_bind client_recv (\<lambda>ack. seq_bind (print_exec ack)
      (\<lambda>_. ret (cid, msg_get ack ''37'' cid))))"
  have unf: "send_order now symbol side qty price s =
      (case q of Inl e \<Rightarrow> (Inl e, v) | Inr _ \<Rightarrow> rest () v)"
    unfolding send_order_def seq_bind_def [of next_order_id] seq_bind_def [of "client_send now msg f" for msg f]
    by (simp only: id(1) v prod.case sum.case rest_def split: sum.split)
  show ?thesis
  proof (cases q)
    case (Inl e)
    then show ?thesis using assms unf client_send_wire [OF v] id(2) by auto
  next
    case (Inr x)
    then obtain m where m: "wire v = wire s @ [m]" "sent_order m cid symbol side qty"
      using client_send_wire [OF v] id(2) by (fastforce simp: sent_order_def)
    have "rest () v = (r, s')" using assms unf Inr by simp
    then have "wire s' = wire v \<and> (\<forall>x. r = Inr x \<longrightarrow> fst x = cid)"
      unfolding rest_def by (elim seq_bind_cases) (auto dest: client_recv_wire print_exec_wire)
    then show ?thesis using m by auto
  qed
qed

lemma send_cancel_wire:
  assumes "send_cancel now cid xid symbol side qty s = (r, s')"
  shows "wire s' = wire s \<and> (\<exists>e. r = Inl e) \<or> (\<exists>m. wire s' = wire s @ [m] \<and> sent_cancel m cid symbol side qty)"
  using client_send_wire [OF assms [unfolded send_cancel_def Let_def]] by (fastforce simp: sent_cancel_def)

text \<open>The bookkeeping of a client: what is on the wire and what the table of orders may hold.\<close>

definition client_ok :: "tracker res \<times> client_session \<Rightarrow> bool" where
  "client_ok p \<longleftrightarrow> wire_ok (wire (snd p)) \<and> (\<forall>orders. fst p = Inr orders \<longrightarrow> tracker_ok orders (wire (snd p)))"

lemma client_ok_same: "client_ok (Inr orders, s) \<Longrightarrow> wire s' = wire s \<Longrightarrow> client_ok (Inr orders, s')"
  by (simp add: client_ok_def)

lemma client_ok_error: "wire_ok (wire s) \<Longrightarrow> client_ok (Inl e, s)"
  by (simp add: client_ok_def)

lemma run_order_ok:
  assumes "client_ok (Inr orders, s)"
  shows "client_ok (run_command now (Order symbol side qty price) orders s)"
proof -
  obtain q u where u: "send_order now symbol side qty price s = (q, u)"
    by (cases "send_order now symbol side qty price s")
  show ?thesis
  proof (cases "wire u = wire s \<and> (\<exists>e. q = Inl e)")
    case True
    then show ?thesis using assms u by (auto simp: seq_bind_def client_ok_def)
  next
    case False
    then obtain m cid where m: "wire u = wire s @ [m]" "sent_order m cid symbol side qty" "\<And>x. q = Inr x \<Longrightarrow> fst x = cid"
      using send_order_wire [OF u] by blast
    have "justified (wire s) m" using m(2) unfolding justified_def by blast
    then have w: "wire_ok (wire u)" using m(1) assms by (simp add: wire_ok_snoc client_ok_def)
    have tr: "tracker_ok (tracker_track xid cid symbol side qty orders) (wire u)" for xid
      using m assms by (auto simp: tracker_ok_def tracker_track_def client_ok_def)
    show ?thesis
    proof (cases q)
      case (Inl e)
      then show ?thesis using u w by (simp add: seq_bind_def client_ok_error)
    next
      case (Inr x)
      obtain z v where v: "recv_print u = (z, v)" by (cases "recv_print u")
      then have "wire v = wire u" by (rule recv_print_wire)
      then show ?thesis using u v w tr m(3) [OF Inr] Inr
        by (cases z; cases x) (simp_all add: seq_bind_def client_ok_def)
    qed
  qed
qed

lemma run_cancel_ok:
  assumes "client_ok (Inr orders, s)"
  shows "client_ok (run_command now (Cancel cid) orders s)"
proof (cases "map_of orders cid")
  case None
  then show ?thesis
    using assms by (auto simp: tracker_get_def seq_bind_def print_line_def intro: client_ok_same)
next
  case (Some info)
  let ?send = "send_cancel now (tr_clord info) (tr_exchange info) (tr_symbol info) (tr_side info) (tr_qty info) s"
  obtain q u where u: "?send = (q, u)" by (cases ?send)
  have "\<exists>m \<in> set (wire s). sent_order m (tr_clord info) (tr_symbol info) (tr_side info) (tr_qty info)"
    using assms Some by (auto simp: tracker_ok_def client_ok_def)
  then have w: "wire_ok (wire u)"
    using send_cancel_wire [OF u] assms by (auto intro!: wire_ok_snoc simp: justified_def client_ok_def)
  have tr: "tracker_ok (tracker_remove cid orders) (wire u)"
    using send_cancel_wire [OF u] assms by (auto simp: tracker_ok_def tracker_remove_def client_ok_def split: if_splits)
  show ?thesis
  proof (cases q)
    case (Inl e)
    then show ?thesis using u w Some by (simp add: seq_bind_def tracker_get_def client_ok_error)
  next
    case (Inr x)
    obtain z v where v: "recv_print u = (z, v)" by (cases "recv_print u")
    then have "wire v = wire u" by (rule recv_print_wire)
    then show ?thesis using u v w tr Inr Some by (cases z) (simp_all add: seq_bind_def client_ok_def tracker_get_def)
  qed
qed

lemma run_command_ok:
  assumes "client_ok (Inr orders, s)"
  shows "client_ok (run_command now cmd orders s)"
proof (cases cmd)
  case (NoCommand m)
  then show ?thesis
    using assms by (cases m) (auto simp: seq_bind_def print_line_def intro: client_ok_same)
next
  case Help
  obtain q u where u: "for_each print_line HELP_TEXT s = (q, u)" by (cases "for_each print_line HELP_TEXT s")
  have "wire u = wire s"
    by (rule for_each_invariant [OF u, where P = "\<lambda>x. wire x = wire s"]) (simp, metis print_line_wire)
  then show ?thesis using assms u Help by (cases q) (auto simp: seq_bind_def client_ok_def)
qed (use assms run_order_ok run_cancel_ok in auto)

lemma logout_ok:
  assumes "wire_ok (wire s)" "client_logout now s = (r, s')"
  shows "wire_ok (wire s')"
proof -
  obtain q u where u: "client_send now ''5'' (\<lambda>_. [(''58'', ''Normal logout'')]) s = (q, u)"
    by (cases "client_send now ''5'' (\<lambda>_. [(''58'', ''Normal logout'')]) s")
  have "wire_ok (wire u)"
    using client_send_wire [OF u] assms(1) by (fastforce intro!: wire_ok_snoc simp: justified_def sent_logout_def)
  moreover have "wire s' = wire u"
  proof (cases q)
    case (Inr x)
    obtain z v where v: "client_recv u = (z, v)" by (cases "client_recv u")
    then have "wire v = wire u" by (rule client_recv_wire)
    then show ?thesis
      using assms(2) u v Inr by (cases z) (auto simp: client_logout_def seq_bind_def split: if_splits)
  qed (use assms(2) u in \<open>simp add: client_logout_def seq_bind_def\<close>)
  ultimately show ?thesis by simp
qed

lemma quit_ok:
  assumes "wire_ok (wire s)"
  shows "wire_ok (wire (snd (seq_bind (print_line l) (\<lambda>_. client_logout now) s)))"
proof -
  obtain u where "print_line l s = (Inr (), u)" "wire u = wire s" by (simp add: print_line_def)
  then show ?thesis using logout_ok [of u now] assms by (simp add: seq_bind_def) (metis prod.collapse)
qed

text \<open>
  C13: The client cancels only what it placed. Whatever is typed and whatever the exchange sends,
  every message of a session that starts with an empty wire is a logout, an order, or a cancel
  whose order went out earlier in the same session with the same ClOrdID, symbol, side and
  quantity; this holds also when the session ends in an exception.
\<close>

theorem repl_cancels_own_orders:
  assumes "wire s = []"
  shows "wire_ok (wire (snd (repl now inputs [] s)))"
proof -
  have "client_ok (Inr [], s)" using assms by (simp add: client_ok_def wire_ok_def tracker_ok_def)
  moreover have "client_ok (Inr orders, s) \<Longrightarrow> wire_ok (wire (snd (repl now inputs orders s)))" for orders s
  proof (induction inputs arbitrary: orders s)
    case Nil
    then show ?case using quit_ok by (simp add: client_ok_def)
  next
    case (Cons i inputs)
    let ?line = "case i of None \<Rightarrow> ''quit'' | Some l \<Rightarrow> l"
    have w: "wire_ok (wire s)" using Cons.prems by (simp add: client_ok_def)
    show ?case
    proof (cases "parse_command ?line")
      case (Inl e)
      then show ?thesis using w by (simp add: seq_bind_def)
    next
      case (Inr cmd)
      show ?thesis
      proof (cases "cmd = Quit")
        case True
        then show ?thesis using quit_ok [OF w] Inr by (simp add: seq_bind_def [of "lift_res r" for r])
      next
        case False
        obtain q u where u: "run_command now cmd orders s = (q, u)" by (cases "run_command now cmd orders s")
        then have "client_ok (q, u)" using run_command_ok [OF Cons.prems, of now cmd] by simp
        then show ?thesis
          using Cons.IH u Inr False by (cases q) (simp_all add: seq_bind_def client_ok_def)
      qed
    qed
  qed
  ultimately show ?thesis by blast
qed

definition example_client :: client_session where
  "example_client = \<lparr>cs_fix = (AsyncFixSession_init ''S1'')\<lparr>afs_reader := [Chunk (example_exec ''0''), Expire, Expire, Expire]\<rparr>,
     cs_order_counter = 0, cs_cancel_counter = 0, cs_printed = []\<rparr>"

theorem repl_cancels_own_orders_witness:
  "wire_ok (wire (snd (repl (\<lambda>_. ''20260101-00:00:00'') [Some ''buy AAPL 10 market'', Some ''cancel ORD-1''] [] example_client)))"
  by (rule repl_cancels_own_orders) (simp add: example_client_def AsyncFixSession_init_def)

section \<open>What a line means\<close>

fun words :: "string list \<Rightarrow> string" where
  "words [] = []"
| "words [w] = w"
| "words (w # ws) = w @ CHR '' '' # words ws"

lemma split_ws_words: "list_all is_token ws \<Longrightarrow> split_ws (words ws) = ws"
proof (induction ws rule: words.induct)
  case 1
  then show ?case by (simp add: split_ws_def)
qed (simp_all add: split_ws_single split_ws_cons)

lemma words_ends:
  "list_all is_token ws \<Longrightarrow> ws \<noteq> [] \<Longrightarrow>
   words ws \<noteq> [] \<and> hd (words ws) = hd (hd ws) \<and> last (words ws) = last (last ws)"
  by (induction ws rule: words.induct) (auto simp: is_token_def)

lemma strip_words: "list_all is_token ws \<Longrightarrow> ws \<noteq> [] \<Longrightarrow> strip (words ws) = words ws"
proof (rule strip_id)
  assume a: "list_all is_token ws" "ws \<noteq> []"
  note ends = words_ends [OF a]
  have "is_token (hd ws)" "is_token (last ws)" using a by (cases ws, auto simp: list_all_iff)
  then show "\<not> py_isspace (hd (words ws))" "\<not> py_isspace (last (words ws))" "words ws \<noteq> []"
    using ends by (auto simp: is_token_def list_all_iff)
qed

lemma is_token_str_int: "is_token (str_int i)"
proof -
  have "list_all (\<lambda>c. \<not> py_isspace c) (str_nat n)" for n
    using str_nat_digits [of n] by (auto simp: list_all_iff digit_not_space)
  then show ?thesis by (simp add: is_token_def str_int_def py_isspace_def)
qed

lemma parse_command_words:
  "list_all is_token ws \<Longrightarrow> ws \<noteq> [] \<Longrightarrow> lower (hd ws) \<in> {''buy'', ''sell''} \<Longrightarrow>
   parse_command (words ws) = parse_order (lower (hd ws)) ws"
  by (auto simp: parse_command_def strip_words split_ws_words Let_def)

text \<open>
  C39: Order entry. A line of a side in any letter case, a symbol, a whole number and \<open>@\<close> with a
  price, or \<open>market\<close>, is read as exactly that order with the symbol in capitals. A line that ends
  after the quantity is taken as a market order although the help asks for the word.
\<close>

theorem parse_command_order:
  assumes "is_token cmd" "lower cmd \<in> {''buy'', ''sell''}" "is_token symbol"
    and "is_token ptext" "py_float ptext = Inr p" "is_token word" "lower word = ''market''"
    and "side = (if lower cmd = ''buy'' then ''1'' else ''2'')"
  shows "parse_command (words [cmd, symbol, str_int qty, ''@'', ptext]) = Inr (Order (upper symbol) side qty (Some p)) \<and>
    parse_command (words [cmd, symbol, str_int qty, word]) = Inr (Order (upper symbol) side qty None) \<and>
    parse_command (words [cmd, symbol, str_int qty]) = Inr (Order (upper symbol) side qty None)"
proof -
  have at: "is_token ''@''" "lower ''@'' \<noteq> ''market''" by (simp_all add: is_token_def py_isspace_def)
  note toks = assms(1,3,4,6) is_token_str_int at(1)
  have tl: "list_all is_token [cmd, symbol, str_int qty, ''@'', ptext]" "list_all is_token [cmd, symbol, str_int qty, word]"
    "list_all is_token [cmd, symbol, str_int qty]" using toks by simp_all
  show ?thesis
    using assms(2,5,7,8) at(2)
    by (simp only: parse_command_words [OF tl(1)] parse_command_words [OF tl(2)] parse_command_words [OF tl(3)]
        list.sel list.simps simp_thms) (simp add: parse_order_def)
qed

theorem parse_command_order_witness:
  "parse_command (words [''Buy'', ''aapl'', str_int 100, ''@'', ''1.5'']) = Inr (Order ''AAPL'' ''1'' 100 (Some (fl (3 / 2))))"
proof -
  have 1: "is_token ''Buy''" "lower ''Buy'' \<in> {''buy'', ''sell''}" "is_token ''aapl''" "is_token ''1.5''"
    "is_token ''market''" "lower ''market'' = ''market''" by (code_simp | simp add: lower_char_def)+
  have 2: "py_float ''1.5'' = Inr (fl (3 / 2))" by code_simp
  have 3: "upper ''aapl'' = ''AAPL''" by code_simp
  have 4: "''1'' = (if lower ''Buy'' = ''buy'' then ''1'' else ''2'')" by code_simp
  show ?thesis using parse_command_order [OF 1(1-4) 2 1(5,6) 4, of 100] 3 by simp
qed


end
