(* ===== verification/Spec2Isabelle.thy ===== *)
theory Spec2Isabelle
  imports UiStartup UiSettles UiProtocol BenchProgram CliClient
begin

text \<open>
  A model of the Python programs of fix-exchange and the theorems that make them correct.

  The program. fix-exchange is a matching engine that speaks FIX 4.2 on one TCP port, an
  administration protocol of text lines on another, and publishes market data as UDP datagrams.
  The engine itself is C++. Around it stand four Python programs, which are modelled here: the
  server of the browser UI (\<open>ui/main.py\<close> on the session of \<open>ui/fix_client.py\<close>), the benchmark
  (\<open>bench/bench.py\<close>), the charts over its history (\<open>bench/plot_history.py\<close>) and an interactive
  client (\<open>tools/client.py\<close>). They meet the engine only through its sockets, and each other through
  the results database. What arrives on a socket is an argument of the models: a list of events,
  \<open>Chunk\<close> for bytes as the network happens to cut them and \<open>Expire\<close> for a timeout, or a function
  from a request to the reply. So the theorems hold for every behaviour of the engine, or for those
  they state as hypotheses.

  The language. \<open>Prelude\<close> has exceptions as the values of \<open>py_exc\<close>, a fallible expression as
  \<open>'a res\<close> with its bind, and dictionaries as association lists in insertion order. \<open>PyText\<close>,
  \<open>PyNum\<close> and \<open>PyFloat\<close> have the string methods, the integer conversions and the doubles of the
  language: a double is the rational it denotes, an operation is the exact one followed by
  rounding to nearest, ties to even. \<open>PyState\<close> has programs with side effects and the \<open>for\<close> loop.
  Of the standard library, \<open>PyRepr\<close> has the shortest decimal text of a double and proves that it
  reads back as the same double, \<open>PyJson\<close> the module \<open>json\<close> with the round trip of its two
  functions, \<open>PyArgs\<close> what the programs use of \<open>argparse\<close>, and \<open>PyChart\<close> a figure as the data
  that is handed to matplotlib.
  Texts of exceptions are kept without the values that the programs print into them.

  The FIX session. \<open>FixCodec\<close> states the wire format and two contracts as locales, of a codec and
  of a sending session, and proves what every program relies on: framing, decoding of what was
  encoded, consecutive sequence numbers. \<open>FixClient\<close> (\<open>ui/fix_client.py\<close>) and \<open>BenchSession\<close>
  (\<open>bench/bench.py\<close>) each define the codec and the session of their program as the source has them
  and interpret both locales on their own definitions. Their read loops differ in the source; the
  first theorem below says where.

  The UI server. \<open>MdBook\<close> has the state that mirrors the exchange (\<open>order_book\<close>, \<open>order_state\<close>,
  \<open>trade_history\<close>) and \<open>_apply_md\<close>, the datagram decoder and the snapshot parser. \<open>MdMirror\<close> states
  the abstract specification, the set of resting orders, and shows by refinement that the levels
  are the sums of the resting quantities after every event; \<open>MdFeed\<close> lifts this to streams of
  datagrams through the locale of a feed, and \<open>MdViews\<close> treats what the browser is shown: the best
  ten levels, the trade series and the seeding from a market data snapshot. \<open>UiServer\<close> has the
  configuration, the admin commands, start and stop, and order entry; \<open>UiStartup\<close> composes startup
  with the mirror. \<open>UiOrders\<close> follows an order from the JSON text of the browser to the bytes on the
  FIX connection, and a bad text to the end of the connection it came from. \<open>UiSockets\<close> models the asyncio program as a step relation, whose steps are the
  pieces of code between two awaits of the tasks, and proves invariants over all reachable states:
  no connected browser misses an execution report. \<open>UiSettles\<close> shows by a measure that the server
  comes to rest when nothing more arrives, \<open>UiProtocol\<close> writes the messages to browsers as JSON
  values, gives the protocol of \<open>docs/UI.md\<close> as types, and shows as an invariant that every message
  has its type.

  The benchmark. \<open>BenchSession\<close> has the admin client too, and shows that the statistics report of
  the exchange is read intact. \<open>BenchScenarios\<close> has the four scenarios; \<open>sends\<close>, \<open>measured\<close> and
  \<open>records\<close> say what a scenario that returns has done, \<open>completes\<close> that it returns. \<open>BenchStats\<close>
  has the percentiles and histograms in rounded arithmetic, \<open>BenchResults\<close> the result of a
  scenario with its tables and charts, \<open>BenchMain\<close> the run of all of them with the sessions the
  driver holds. \<open>BenchHistory\<close> has the two tables of the results database and \<open>save_results\<close>; \<open>PlotHistory\<close> loads them for the trend
  charts, and its last theorem composes the two: the charts show what the benchmark computed.
  \<open>BenchCharts\<close> has the printed report and the figures of a run, \<open>PlotCharts\<close> those of the history
  with the entry points of \<open>bench/plot_history.py\<close>, \<open>BenchArgs\<close> the command line. \<open>BenchProgram\<close>
  closes the circle with the whole of \<open>main\<close>, from the command line and the wire to both sets of
  figures.

  The interactive client. \<open>CliClient\<close> has the session, the command parser, the table of orders and
  the command loop, whose messages are shown to be justified by earlier ones, and the entry point,
  which fails before any of this runs.

  Loops and bounds. Loops over a stream end because each round takes something
  off it, which is the measure of their termination proofs, and running out of events is a closed
  connection. Only the parser of JSON has fuel, two units for every character of the text and two
  more, and lemma \<open>parse_fuel\<close> of \<open>PyJson\<close> says that more would not change its result: a call
  that takes no character off the text is followed by one that does. Percentiles are proved for at
  most 2 to the 32 samples, which keeps the rank below 2 to the 40 where the rounding of the division cannot cross a whole number; prices of the
  scenarios for bases up to 1000 and indices up to 10 to the 9.

  Not modelled. The C++ engine and the JavaScript of the page (other languages); asyncio,
  uvicorn, sqlite3, matplotlib and rich (libraries: their calls are the step relation, the lists
  of rows and the data passed to them), with the colours and the layout of figures and tables; the
  progress lines of the benchmark; the limit on the nesting of JSON values; errors of the database, of the file system and of sending on a socket;
  numbers that are not finite, which stop a program with \<open>NonFinite\<close>; text outside ASCII in
  messages and files.
\<close>

section \<open>The UI and the benchmark read the same stream\<close>

lemma recv_loop_cut:
  "find_sub ''10='' buf = Some n \<Longrightarrow> index_from SEP buf n = Some soh \<Longrightarrow>
   recv_raw_loop buf net = (Inr (take (soh + 1) buf), drop (soh + 1) buf, net)"
  by (rule recv_raw_hit) (simp add: raw_cut_def)

text \<open>
  C11: The UI's session and the benchmark's session are the same reader up to one defect: on every
  buffer and every sequence of network events, whenever the UI's \<open>recv\<close> loop does not raise
  ValueError, the benchmark's \<open>_recv_raw\<close> loop returns the same message or raises the same
  exception and leaves the same bytes and events.
\<close>

theorem sessions_read_alike:
  assumes "recv_loop True buf net = (r, buf', net')" "r \<noteq> Inl ValueError"
  shows "recv_raw_loop buf net = (r, buf', net')"
  using assms
proof (induction net arbitrary: buf)
  case Nil
  show ?case
  proof (cases "find_sub ''10='' buf")
    case None
    then have "raw_cut buf = None" by (simp add: raw_cut_def)
    then show ?thesis using Nil None by (simp add: recv_loop_wait recv_raw_wait)
  next
    case (Some n)
    then show ?thesis using Nil by (auto simp: recv_loop_hit recv_loop_cut split: option.splits)
  qed
next
  case (Cons ev net)
  show ?case
  proof (cases "find_sub ''10='' buf")
    case None
    then have "raw_cut buf = None" by (simp add: raw_cut_def)
    then show ?thesis
      using Cons None by (cases ev) (auto simp: recv_loop_wait recv_raw_wait split: if_splits)
  next
    case (Some n)
    then show ?thesis
      using Cons.prems by (auto simp: recv_loop_hit recv_loop_cut split: option.splits)
  qed
qed

theorem sessions_read_alike_witness:
  "recv_raw_loop [] [Chunk example_frame, Expire] = (Inr example_frame, [], [Expire])"
proof -
  have "recv_loop True [] [Chunk example_frame, Expire] = (Inr example_frame, [], [Expire])" by code_simp
  then show ?thesis by (rule sessions_read_alike) simp
qed

section \<open>The UI and the benchmark claim sessions\<close>

lemma strip_prefix: "s \<noteq> [] \<Longrightarrow> \<not> py_isspace (hd s) \<Longrightarrow> prefix (strip s) s"
proof -
  assume "s \<noteq> []" "\<not> py_isspace (hd s)"
  then have "strip s = rev (dropWhile py_isspace (rev s))" by (simp add: strip_def dropWhile_hd)
  moreover have "suffix (dropWhile py_isspace (rev s)) (rev s)" by (rule suffix_dropWhile)
  ultimately show ?thesis by (simp add: suffix_to_prefix)
qed



end
